theory Spec2Isabelle
  imports Main
begin

section \<open>Errors\<close>

text \<open>
  Every exception the modelled code raises, or lets through from a collaborator, is a
  value of \<open>error\<close>. \<open>StatusError s body\<close> is the error class that
  \<open>fondat.error.error_for_status(s)\<close> selects, raised with the response text;
  \<open>UnauthorizedError\<close> is the one for status 401. \<open>UnexpectedResponse s body\<close> is the
  \<open>InternalServerError\<close> raised for a status outside 200..299 and 400..599.
  \<open>OtherError\<close> stands for any other \<open>Exception\<close> of a collaborator (a transport error,
  a decoding error).
\<close>

datatype error =
    ValueError string
  | TypeError string
  | RuntimeError string
  | TimeoutError
  | IndexError
  | AttributeError
  | NotFoundError
  | StatusError nat string
  | UnexpectedResponse nat string
  | OtherError string

section \<open>sobjects.py: the field catalog and \<open>sobject_field_type\<close>\<close>

text \<open>
  The Python types on the right-hand side of \<open>_type_mappings\<close>, the annotation
  \<open>Annotated[t, MaxLen(n)]\<close> and the final \<open>Optional[...]\<close>.
\<close>

datatype pytype =
  PyAddress | PyAny | PyBytes | PyBool | PyStr | PyFloat | PyDate | PyDatetime | PyInt
  | PyLocation

datatype anntype = Plain pytype | AnnotatedMaxLen pytype int

datatype opttype = Optional anntype

definition type_mappings :: "(string \<times> pytype) list" where
  "type_mappings =
    [(''address'', PyAddress),
     (''anyType'', PyAny),
     (''base64'', PyBytes),
     (''boolean'', PyBool),
     (''combobox'', PyStr),
     (''complexvalue'', PyAny),
     (''currency'', PyFloat),
     (''date'', PyDate),
     (''datetime'', PyDatetime),
     (''double'', PyFloat),
     (''email'', PyStr),
     (''encryptedstring'', PyStr),
     (''id'', PyStr),
     (''int'', PyInt),
     (''json'', PyAny),
     (''location'', PyLocation),
     (''long'', PyInt),
     (''multipicklist'', PyStr),
     (''percent'', PyFloat),
     (''phone'', PyStr),
     (''picklist'', PyStr),
     (''reference'', PyStr),
     (''time'', PyStr),
     (''string'', PyStr),
     (''textarea'', PyStr),
     (''url'', PyStr)]"

text \<open>
  \<open>FieldType = Literal[tuple(_type_mappings.keys())]\<close>: the declared type of
  \<open>Field.type\<close>. Python does not enforce the annotation, so \<open>field_type\<close> is a
  string and \<open>sobject_field_type\<close> keeps its \<open>KeyError\<close> branch.
\<close>

definition FieldType :: "string set" where
  "FieldType = set (map fst type_mappings)"

text \<open>
  Of the attributes of \<open>Field\<close> the modelled functions read \<open>name\<close>, \<open>type\<close> and
  \<open>length\<close>; \<open>nillable\<close> is kept because a claim is about it. Of \<open>SObject\<close> they
  read \<open>name\<close> and \<open>fields\<close>. Attributes are prefixed with their class.
\<close>

record Field =
  field_name :: string
  field_type :: string
  field_length :: int
  field_nillable :: bool

record SObject =
  sobject_name :: string
  sobject_fields :: "Field list"

definition sobject_field_type :: "Field \<Rightarrow> error + opttype" where
  "sobject_field_type field =
    (case map_of type_mappings (field_type field) of
       None \<Rightarrow> Inl (TypeError (''unsupported field type: '' @ field_type field))
     | Some result \<Rightarrow>
         Inr (Optional
           (if field_length field \<noteq> 0
            then AnnotatedMaxLen result (field_length field)
            else Plain result)))"

text \<open>The string-like tags are those the table sends to \<open>str\<close>.\<close>

definition string_like :: "string \<Rightarrow> bool" where
  "string_like t = (map_of type_mappings t = Some PyStr)"

fun has_max_len :: "opttype \<Rightarrow> bool" where
  "has_max_len (Optional (AnnotatedMaxLen t n)) = True"
| "has_max_len (Optional (Plain t)) = False"

section \<open>bulk.py: \<open>SObjectQuery.__init__\<close>\<close>

definition exclude_types :: "string set" where
  "exclude_types = {''address'', ''location''}"

text \<open>
  \<open>{field.name: field for field in sobject.fields}\<close>: a later field of the same name
  replaces an earlier one.
\<close>

definition indexed_of :: "Field list \<Rightarrow> (string \<rightharpoonup> Field)" where
  "indexed_of fs = map_of (rev (map (\<lambda>f. (field_name f, f)) fs))"

text \<open>
  A Python \<open>dict\<close> keeps insertion order; storing under a key already present replaces
  the value where it stands.
\<close>

fun dict_set :: "('k \<times> 'v) list \<Rightarrow> 'k \<Rightarrow> 'v \<Rightarrow> ('k \<times> 'v) list" where
  "dict_set [] k v = [(k, v)]"
| "dict_set ((k', v') # d) k v =
     (if k' = k then (k, v) # d else (k', v') # dict_set d k v)"

text \<open>The \<open>for name in fields\<close> loop of lines 53 to 57: the first offending name raises.\<close>

fun check_fields :: "(string \<rightharpoonup> Field) \<Rightarrow> string list \<Rightarrow> error option" where
  "check_fields indexed [] = None"
| "check_fields indexed (name # rest) =
     (case indexed name of
        None \<Rightarrow> Some (ValueError (''unknown field: '' @ name))
      | Some field \<Rightarrow>
          if field_type field \<in> exclude_types
          then Some (ValueError
                 (''cannot query '' @ field_type field @ '' type field: '' @ name))
          else check_fields indexed rest)"

text \<open>
  The dict comprehension of line 58,
  \<open>{f: sobject_field_type(indexed[f]) for f in fields}\<close>, with the entries built so far
  as accumulator. \<open>indexed[f]\<close> raises \<open>KeyError\<close> for a missing key; the loop before
  it has excluded that, and the model keeps the branch as \<open>OtherError\<close>.
\<close>

fun build_td ::
  "(string \<rightharpoonup> Field) \<Rightarrow> (string \<times> opttype) list \<Rightarrow> string list
    \<Rightarrow> error + (string \<times> opttype) list" where
  "build_td indexed acc [] = Inr acc"
| "build_td indexed acc (f # rest) =
     (case indexed f of
        None \<Rightarrow> Inl (OtherError ''KeyError'')
      | Some field \<Rightarrow>
          (case sobject_field_type field of
             Inl e \<Rightarrow> Inl e
           | Inr t \<Rightarrow> build_td indexed (dict_set acc f t) rest))"

text \<open>\<open>str(n)\<close> for an integer, and \<open>', '.join(fields)\<close>.\<close>

fun str_nat :: "nat \<Rightarrow> string" where
  "str_nat n =
     (if n < 10 then [char_of (48 + n)]
      else str_nat (n div 10) @ [char_of (48 + n mod 10)])"

definition str_int :: "int \<Rightarrow> string" where
  "str_int i = (if i < 0 then CHR ''-'' # str_nat (nat (- i)) else str_nat (nat i))"

fun join :: "string \<Rightarrow> string list \<Rightarrow> string" where
  "join sep [] = []"
| "join sep [x] = x"
| "join sep (x # y # ys) = x @ sep @ join sep (y # ys)"

text \<open>
  The object itself (\<open>self.client\<close> is the collaborator behind the oracles below and
  has no field). \<open>query\<close> is the job resource (here the job id) once the context is
  entered, \<open>results\<close> the deque of buffered rows, \<open>codec\<close> the row codec that
  \<open>_next_page\<close> installs (the type \<open>'c\<close> belongs to the CSV library).
  \<open>fields\<close> is typed \<open>Optional[set[str]]\<close>; a set is modelled by the sequence in which
  it is iterated (the argument \<open>requested\<close>; the local \<open>fields\<close> is \<open>names\<close>).
\<close>

record 'c SObjectQuery =
  page_size :: "int option"
  td :: "(string \<times> opttype) list"
  stmt :: string
  timeout :: "int option"
  query :: "string option"
  results :: "string list list option"
  header :: "string list option"
  cursor :: "string option"
  codec :: "'c option"

definition init ::
  "SObject \<Rightarrow> string list option \<Rightarrow> string option \<Rightarrow> string option \<Rightarrow> int option
    \<Rightarrow> int option \<Rightarrow> int option \<Rightarrow> error + 'c SObjectQuery" where
  "init sobject requested whr order_by limit pgsize tmo =
    (let indexed = indexed_of (sobject_fields sobject);
         names = (case requested of
                     None \<Rightarrow> map field_name
                       (filter (\<lambda>f. field_type f \<notin> exclude_types) (sobject_fields sobject))
                   | Some fs \<Rightarrow> fs)
     in if length names = 0 then Inl (ValueError ''you must query at least one field'')
        else (case check_fields indexed names of
                Some e \<Rightarrow> Inl e
              | None \<Rightarrow>
                  (case build_td indexed [] names of
                     Inl e \<Rightarrow> Inl e
                   | Inr d \<Rightarrow>
                       Inr \<lparr> page_size = pgsize,
                             td = d,
                             stmt = ''SELECT '' @ join '', '' names @ '' FROM ''
                               @ sobject_name sobject
                               @ (case whr of
                                    None \<Rightarrow> []
                                  | Some c \<Rightarrow> if c = [] then [] else '' WHERE '' @ c)
                               @ (case order_by of
                                    None \<Rightarrow> []
                                  | Some c \<Rightarrow> if c = [] then [] else '' ORDER BY '' @ c)
                               @ (case limit of
                                    None \<Rightarrow> []
                                  | Some n \<Rightarrow>
                                      if n = 0 then [] else '' LIMIT '' @ str_int n),
                             timeout = tmo,
                             query = None,
                             results = None,
                             header = None,
                             cursor = None,
                             codec = None \<rparr>)))"


section \<open>client.py: \<open>Client.request\<close>\<close>

text \<open>
  \<open>Token\<close> is declared in \<open>fondat.salesforce.oauth\<close>; the client reads its
  \<open>access_token\<close> and \<open>instance_url\<close>, and tests the object for truth (an object of
  a data class is true). A response carries what the modelled code reads of it (\<open>body_text\<close> is
  \<open>await response.text()\<close>). Python's
  \<open>str\<close> and \<open>bytes\<close> are both \<open>string\<close> here, \<open>encode\<close> and \<open>decode\<close> the
  identity.
\<close>

record Token =
  access_token :: string
  instance_url :: string

record response =
  status :: nat
  body_text :: string
  headers :: "(string \<times> string) list"

text \<open>
  What one call of \<open>session.request\<close> is given. (\<open>compress=bool(json)\<close> is left out:
  the truth value of an arbitrary JSON value is not modelled.)
\<close>

record http_request =
  req_method :: string
  req_url :: string
  req_headers :: "(string \<times> string) list"
  req_params :: "(string \<times> string) list"
  req_json :: "string option"

text \<open>
  The collaborators of the client, as oracles: the outcome of the \<open>k\<close>-th invocation
  of \<open>authenticate\<close>, and the outcome of the \<open>k\<close>-th HTTP attempt (a transport error
  or a response).
\<close>

record net =
  authenticate :: "nat \<Rightarrow> error + Token"
  http_reply :: "nat \<Rightarrow> error + response"

text \<open>
  The client's only mutable attribute is \<open>token\<close>. \<open>auth_calls\<close> and \<open>sent\<close> are the
  trace: how often \<open>authenticate\<close> was invoked, and the requests handed to the session,
  in order.
\<close>

record Client =
  token :: "Token option"
  auth_calls :: nat
  sent :: "http_request list"

record request_args =
  arg_method :: string
  arg_path :: string
  arg_headers :: "(string \<times> string) list option"
  arg_params :: "(string \<times> string) list"
  arg_json :: "string option"

text \<open>\<open>d1 | d2\<close> on dicts.\<close>

definition dict_or :: "('k \<times> 'v) list \<Rightarrow> ('k \<times> 'v) list \<Rightarrow> ('k \<times> 'v) list" where
  "dict_or d1 d2 = foldl (\<lambda>d (k, v). dict_set d k v) d1 d2"

text \<open>\<open>except fondat.error.UnauthorizedError\<close>: the error class of status 401.\<close>

fun is_unauthorized :: "error \<Rightarrow> bool" where
  "is_unauthorized (StatusError s body) = (s = 401)"
| "is_unauthorized e = False"

text \<open>The body of \<open>async with self.session.request(...) as response\<close>, lines 75 to 85.\<close>

definition classify :: "response \<Rightarrow> error + response" where
  "classify r =
    (if 400 \<le> status r \<and> status r \<le> 599 then Inl (StatusError (status r) (body_text r))
     else if 200 \<le> status r \<and> status r \<le> 299 then Inr r
     else Inl (UnexpectedResponse (status r) (body_text r)))"

text \<open>
  The loop \<open>for retry in range(2)\<close>, over the values of \<open>retry\<close> still to come.
  A generator that ends without a \<open>yield\<close> makes \<open>asynccontextmanager\<close> raise
  \<open>RuntimeError\<close>; that is the empty case. \<open>hdrs\<close> is the local \<open>headers\<close>, which
  keeps the \<open>Authorization\<close> entry from one round to the next.
\<close>

fun request_loop ::
  "net \<Rightarrow> request_args \<Rightarrow> (string \<times> string) list \<Rightarrow> nat list \<Rightarrow> Client
    \<Rightarrow> (error + response) \<times> Client" where
  "request_loop env a hdrs [] c = (Inl (RuntimeError ''generator didn't yield''), c)"
| "request_loop env a hdrs (retry # rest) c =
     (case (case token c of
              None \<Rightarrow>
                (case authenticate env (auth_calls c) of
                   Inl e \<Rightarrow> Inl (e, c\<lparr>auth_calls := auth_calls c + 1\<rparr>)
                 | Inr t \<Rightarrow> Inr (t, c\<lparr>token := Some t, auth_calls := auth_calls c + 1\<rparr>))
            | Some t \<Rightarrow> Inr (t, c)) of
        Inl (e, c1) \<Rightarrow> (Inl e, c1)
      | Inr (t, c1) \<Rightarrow>
          (let hdrs1 = dict_set hdrs ''Authorization'' (''Bearer '' @ access_token t);
               url = instance_url t @ arg_path a;
               c2 = c1\<lparr>sent := sent c1 @
                      [\<lparr> req_method = arg_method a, req_url = url, req_headers = hdrs1,
                         req_params = arg_params a, req_json = arg_json a \<rparr>]\<rparr>
           in case (case http_reply env (length (sent c1)) of
                      Inl e \<Rightarrow> Inl e
                    | Inr r \<Rightarrow> classify r) of
                Inr r \<Rightarrow> (Inr r, c2)
              | Inl e \<Rightarrow>
                  if is_unauthorized e
                  then (if retry \<noteq> 0 then (Inl e, c2)
                        else request_loop env a hdrs1 rest (c2\<lparr>token := None\<rparr>))
                  else (Inl e, c2)))"

definition request :: "net \<Rightarrow> request_args \<Rightarrow> Client \<Rightarrow> (error + response) \<times> Client" where
  "request env a c =
    request_loop env a
      (dict_or [(''Accept'', ''application/json''), (''Accept-Encoding'', ''gzip'')]
         (case arg_headers a of None \<Rightarrow> [] | Some h \<Rightarrow> h))
      [0, 1] c"

section \<open>jobs.py: \<open>QueryResource.results\<close>\<close>

record QueryResultsPage =
  items :: "string list list"
  page_cursor :: "string option"

text \<open>
  Lines 116 to 118. A cursor that is \<open>None\<close> or empty is false and adds no
  \<open>locator\<close>.
\<close>

definition results_params :: "int \<Rightarrow> string option \<Rightarrow> (string \<times> string) list" where
  "results_params limit crs =
    dict_or [(''maxRecords'', str_int limit)]
      (case crs of
         None \<Rightarrow> []
       | Some c \<Rightarrow> if c = [] then [] else [(''locator'', c)])"

text \<open>
  Lines 125 to 132, on the response that \<open>client.request\<close> yields. \<open>csv_reader\<close> is
  \<open>csv.reader\<close> on the body. \<open>response.headers.get\<close> gives \<open>None\<close> for a header
  that is absent; \<open>None != "null"\<close> is true, and \<open>None.encode()\<close> raises
  \<open>AttributeError\<close>.
\<close>

definition results_page ::
  "(string \<Rightarrow> string list list) \<Rightarrow> response \<Rightarrow> error + QueryResultsPage" where
  "results_page csv_reader resp =
    (if status resp = 204 then Inl NotFoundError
     else
       (let its = csv_reader (body_text resp);
            locator = map_of (headers resp) ''Sforce-Locator''
        in if locator \<noteq> Some ''null''
           then (case locator of
                   None \<Rightarrow> Inl AttributeError
                 | Some l \<Rightarrow> Inr \<lparr> items = its, page_cursor = Some l \<rparr>)
           else Inr \<lparr> items = its, page_cursor = None \<rparr>))"

definition results_op ::
  "net \<Rightarrow> (string \<Rightarrow> string list list) \<Rightarrow> string \<Rightarrow> int \<Rightarrow> string option \<Rightarrow> Client
    \<Rightarrow> (error + QueryResultsPage) \<times> Client" where
  "results_op env csv_reader path limit crs c =
    (case request env
            \<lparr> arg_method = ''GET'', arg_path = path @ ''/results'',
              arg_headers = Some [(''Accept'', ''text/csv'')],
              arg_params = results_params limit crs, arg_json = None \<rparr> c of
       (Inl e, c') \<Rightarrow> (Inl e, c')
     | (Inr resp, c') \<Rightarrow> (results_page csv_reader resp, c'))"

section \<open>bulk.py: the job's lifecycle and the page iterator\<close>

text \<open>
  The job resource \<open>self.query\<close> and the CSV library, as oracles. \<open>info_reply k\<close> is
  the outcome of the \<open>k\<close>-th status poll \<open>self.query.get()\<close>: the \<open>state\<close> of the
  job it returns, or the error it raises; \<open>info_cost k\<close> is the time that poll takes.
  \<open>results_reply k limit cursor\<close> is the outcome of the \<open>k\<close>-th call of
  \<open>self.query.results\<close>, \<open>delete_reply k\<close> the error of the \<open>k\<close>-th call of
  \<open>self.query.delete\<close>, if it raises one. \<open>typeddict_codec\<close> and \<open>decode\<close> belong
  to \<open>fondat.csv\<close>.
\<close>

record ('c, 'r) job_env =
  info_reply :: "nat \<Rightarrow> error + string"
  info_cost :: "nat \<Rightarrow> nat"
  results_reply :: "nat \<Rightarrow> int \<Rightarrow> string option \<Rightarrow> error + QueryResultsPage"
  delete_reply :: "nat \<Rightarrow> error option"
  typeddict_codec :: "(string \<times> opttype) list \<Rightarrow> string list \<Rightarrow> error + 'c"
  decode :: "'c \<Rightarrow> string list \<Rightarrow> error + 'r"

text \<open>
  The world outside the object: the clock \<open>time()\<close> reads, in the time units of
  \<open>asyncio.sleep\<close>, and the trace of what was done: the number of status polls, the
  waits in order, the arguments of the page fetches in order, the number of delete
  calls. A wait of \<open>d\<close> advances the clock by \<open>d\<close>.
\<close>

record world =
  now :: int
  polls :: nat
  sleeps :: "int list"
  fetches :: "(int \<times> string option) list"
  deletes :: nat

text \<open>\<open>self.info()\<close>, of which the loop reads \<open>.state\<close>.\<close>

definition info ::
  "('c, 'r) job_env \<Rightarrow> 'c SObjectQuery \<Rightarrow> world \<Rightarrow> (error + string) \<times> world" where
  "info env q w =
    (case query q of
       None \<Rightarrow> (Inl AttributeError, w)
     | Some job \<Rightarrow>
         (info_reply env (polls w),
          w\<lparr>polls := polls w + 1, now := now w + int (info_cost env (polls w))\<rparr>))"

text \<open>\<open>self.timeout and time() - start >= self.timeout\<close>: \<open>None\<close> and \<open>0\<close> are false.\<close>

definition deadline_passed :: "int option \<Rightarrow> int \<Rightarrow> bool" where
  "deadline_passed tmo elapsed =
    (case tmo of None \<Rightarrow> False | Some t \<Rightarrow> t \<noteq> 0 \<and> elapsed \<ge> t)"

text \<open>
  The \<open>while\<close> loop of \<open>_await_complete\<close> with the statement after it. The loop has
  no bound of its own, so the function is partial: \<open>None\<close> is a run that never returns.
\<close>

partial_function (option) await_loop ::
  "('c, 'r) job_env \<Rightarrow> 'c SObjectQuery \<Rightarrow> int \<Rightarrow> int \<Rightarrow> world
    \<Rightarrow> ((error + unit) \<times> world) option" where
  "await_loop env q start sleep w =
    (case info env q w of
       (Inl e, w1) \<Rightarrow> Some (Inl e, w1)
     | (Inr state, w1) \<Rightarrow>
         if state \<in> {''UploadComplete'', ''InProgress''}
         then (if deadline_passed (timeout q) (now w1 - start)
               then Some (Inl TimeoutError, w1)
               else await_loop env q start (min (sleep * 2) 60)
                      (w1\<lparr>now := now w1 + sleep, sleeps := sleeps w1 @ [sleep]\<rparr>))
         else if state \<noteq> ''JobComplete''
         then Some (Inl (RuntimeError (''unexpected job state: '' @ state)), w1)
         else Some (Inr (), w1))"

definition await_complete ::
  "('c, 'r) job_env \<Rightarrow> 'c SObjectQuery \<Rightarrow> world \<Rightarrow> ((error + unit) \<times> world) option" where
  "await_complete env q w = await_loop env q (now w) 1 w"

text \<open>
  \<open>__aenter__\<close>: \<open>post_reply\<close> is the outcome of \<open>queries.post\<close>, the id of the job
  created or the error raised.
\<close>

definition aenter :: "error + string \<Rightarrow> 'c SObjectQuery \<Rightarrow> error + 'c SObjectQuery" where
  "aenter post_reply q =
    (if query q \<noteq> None then Inl (RuntimeError ''context is not reentrant'')
     else (case post_reply of
             Inl e \<Rightarrow> Inl e
           | Inr job \<Rightarrow> Inr (q\<lparr>query := Some job\<rparr>)))"

text \<open>\<open>self.query.delete()\<close>.\<close>

definition delete ::
  "('c, 'r) job_env \<Rightarrow> 'c SObjectQuery \<Rightarrow> world \<Rightarrow> (error + unit) \<times> world" where
  "delete env q w =
    (case query q of
       None \<Rightarrow> (Inl AttributeError, w)
     | Some job \<Rightarrow>
         ((case delete_reply env (deletes w) of None \<Rightarrow> Inr () | Some e \<Rightarrow> Inl e),
          w\<lparr>deletes := deletes w + 1\<rparr>))"

text \<open>
  \<open>with suppress(...)\<close> around a block: an error the predicate catches ends the block
  normally. Every value of \<open>error\<close> is an \<open>Exception\<close>, so \<open>suppress(Exception)\<close>
  catches them all. (Cancellation, a \<open>BaseException\<close>, is not modelled.)
\<close>

definition suppress :: "(error \<Rightarrow> bool) \<Rightarrow> (error + unit) \<times> 's \<Rightarrow> (error + unit) \<times> 's" where
  "suppress catches out =
    (case out of
       (Inl e, s) \<Rightarrow> if catches e then (Inr (), s) else (Inl e, s)
     | (Inr u, s) \<Rightarrow> (Inr u, s))"

definition aexit ::
  "('c, 'r) job_env \<Rightarrow> 'c SObjectQuery \<Rightarrow> world \<Rightarrow> ((error + unit) \<times> world) option" where
  "aexit env q w =
    (case (if results q = None
           then map_option (suppress (\<lambda>e. e = TimeoutError)) (await_complete env q w)
           else Some (Inr (), w)) of
       None \<Rightarrow> None
     | Some (Inl e, w1) \<Rightarrow> Some (Inl e, w1)
     | Some (Inr u, w1) \<Rightarrow> Some (suppress (\<lambda>e. True) (delete env q w1)))"

text \<open>Truth of \<open>self.cursor\<close> and of \<open>self.results\<close>.\<close>

definition truthy :: "'a list option \<Rightarrow> bool" where
  "truthy x = (case x of None \<Rightarrow> False | Some v \<Rightarrow> v \<noteq> [])"

text \<open>
  \<open>_next_page\<close>. The assignments to \<open>self.results\<close> and \<open>self.cursor\<close> come before
  \<open>popleft\<close>, which raises \<open>IndexError\<close> on an empty deque, and \<open>popleft\<close> before
  the call of \<open>typeddict_codec\<close>.
\<close>

definition next_page ::
  "('c, 'r) job_env \<Rightarrow> 'c SObjectQuery \<Rightarrow> world
    \<Rightarrow> (error + unit) \<times> 'c SObjectQuery \<times> world" where
  "next_page env q w =
    (case query q of
       None \<Rightarrow> (Inl AttributeError, q, w)
     | Some job \<Rightarrow>
         (let limit = (case page_size q of
                         None \<Rightarrow> 1000
                       | Some n \<Rightarrow> if n = 0 then 1000 else n);
              w1 = w\<lparr>fetches := fetches w @ [(limit, cursor q)]\<rparr>
          in case results_reply env (length (fetches w)) limit (cursor q) of
               Inl e \<Rightarrow> (Inl e, q, w1)
             | Inr page \<Rightarrow>
                 (let q1 = q\<lparr>results := Some (items page), cursor := page_cursor page\<rparr>
                  in case items page of
                       [] \<Rightarrow> (Inl IndexError, q1, w1)
                     | first # rest \<Rightarrow>
                         (case typeddict_codec env (td q1) first of
                            Inl e \<Rightarrow> (Inl e, q1\<lparr>results := Some rest\<rparr>, w1)
                          | Inr c \<Rightarrow>
                              (Inr (), q1\<lparr>results := Some rest, codec := Some c\<rparr>, w1)))))"

text \<open>
  \<open>__anext__\<close> returns a record, raises \<open>StopAsyncIteration\<close> or raises an error.
  In the last line \<open>self.codec\<close> is read first (the attribute does not exist before
  \<open>_next_page\<close> has set it), then \<open>self.results.popleft()\<close> is evaluated, then
  \<open>decode\<close> is called.
\<close>

datatype 'r step = Yield 'r | StopAsyncIteration | Raise error

definition anext_tail ::
  "('c, 'r) job_env \<Rightarrow> 'c SObjectQuery \<Rightarrow> world \<Rightarrow> 'r step \<times> 'c SObjectQuery \<times> world" where
  "anext_tail env q w =
    (if \<not> truthy (results q) \<and> \<not> truthy (cursor q) then (StopAsyncIteration, q, w)
     else (case codec q of
             None \<Rightarrow> (Raise AttributeError, q, w)
           | Some c \<Rightarrow>
               (case results q of
                  None \<Rightarrow> (Raise AttributeError, q, w)
                | Some [] \<Rightarrow> (Raise IndexError, q, w)
                | Some (row # rest) \<Rightarrow>
                    (case decode env c row of
                       Inl e \<Rightarrow> (Raise e, q\<lparr>results := Some rest\<rparr>, w)
                     | Inr x \<Rightarrow> (Yield x, q\<lparr>results := Some rest\<rparr>, w)))))"

definition anext_fetch ::
  "('c, 'r) job_env \<Rightarrow> 'c SObjectQuery \<Rightarrow> world \<Rightarrow> 'r step \<times> 'c SObjectQuery \<times> world" where
  "anext_fetch env q w =
    (if results q = None \<or> (\<not> truthy (results q) \<and> truthy (cursor q))
     then (case next_page env q w of
             (Inl e, q1, w1) \<Rightarrow> (Raise e, q1, w1)
           | (Inr u, q1, w1) \<Rightarrow> anext_tail env q1 w1)
     else anext_tail env q w)"

definition anext ::
  "('c, 'r) job_env \<Rightarrow> 'c SObjectQuery \<Rightarrow> world
    \<Rightarrow> ('r step \<times> 'c SObjectQuery \<times> world) option" where
  "anext env q w =
    (if results q = None
     then (case await_complete env q w of
             None \<Rightarrow> None
           | Some (Inl e, w1) \<Rightarrow> Some (Raise e, q, w1)
           | Some (Inr u, w1) \<Rightarrow> Some (anext_fetch env q w1))
     else Some (anext_fetch env q w))"

text \<open>
  \<open>async for row in query\<close>, run to its end: \<open>__aiter__\<close> once, then \<open>__anext__\<close>
  until it raises. The result is the list of records yielded, and how the iteration
  ended: \<open>Inr ()\<close> for \<open>StopAsyncIteration\<close>, or the error raised.
\<close>

partial_function (option) drain ::
  "('c, 'r) job_env \<Rightarrow> 'c SObjectQuery \<Rightarrow> world \<Rightarrow> 'r list
    \<Rightarrow> ('r list \<times> (error + unit) \<times> 'c SObjectQuery \<times> world) option" where
  "drain env q w acc =
    (case anext env q w of
       None \<Rightarrow> None
     | Some (Yield x, q1, w1) \<Rightarrow> drain env q1 w1 (acc @ [x])
     | Some (StopAsyncIteration, q1, w1) \<Rightarrow> Some (acc, Inr (), q1, w1)
     | Some (Raise e, q1, w1) \<Rightarrow> Some (acc, Inl e, q1, w1))"

definition iterate ::
  "('c, 'r) job_env \<Rightarrow> 'c SObjectQuery \<Rightarrow> world
    \<Rightarrow> ('r list \<times> (error + unit) \<times> 'c SObjectQuery \<times> world) option" where
  "iterate env q w =
    (if query q = None
     then Some ([], Inl (RuntimeError ''must iterate within async context''), q, w)
     else drain env q w [])"

section \<open>Vocabulary of the statements about the wait\<close>

text \<open>
  The states in which the loop of \<open>_await_complete\<close> goes on; the schedule of waits
  1, 2, 4, 8, 16, 32, 60, 60, ...; and \<open>poll_time env p k\<close>, the time from the start
  of the wait until the poll after \<open>k\<close> waits has answered, when the first poll is
  the \<open>p\<close>-th of the job: \<open>k\<close> rounds of a poll and a wait, then one poll.
  \<open>waited\<close> and \<open>polled\<close> are the worlds after \<open>n\<close> such rounds, and after the poll
  that follows them.
\<close>

definition backoff :: "nat \<Rightarrow> int" where
  "backoff k = (if k < 6 then 2 ^ k else 60)"

definition poll_time :: "('c, 'r) job_env \<Rightarrow> nat \<Rightarrow> nat \<Rightarrow> int" where
  "poll_time env p k =
     (\<Sum>i<k. int (info_cost env (p + i)) + backoff i) + int (info_cost env (p + k))"

definition incomplete :: "string set" where
  "incomplete = {''UploadComplete'', ''InProgress''}"

definition verdict :: "string \<Rightarrow> error + unit" where
  "verdict s = (if s = ''JobComplete'' then Inr ()
     else Inl (RuntimeError (''unexpected job state: '' @ s)))"

definition polled :: "('c, 'r) job_env \<Rightarrow> world \<Rightarrow> nat \<Rightarrow> world" where
  "polled env w n =
     \<lparr> now = now w + poll_time env (polls w) n, polls = polls w + n + 1,
       sleeps = sleeps w @ map backoff [0..<n], fetches = fetches w, deletes = deletes w \<rparr>"

definition waited :: "('c, 'r) job_env \<Rightarrow> world \<Rightarrow> nat \<Rightarrow> world" where
  "waited env w n =
     \<lparr> now = now w + (\<Sum>i<n. int (info_cost env (polls w + i)) + backoff i),
       polls = polls w + n,
       sleeps = sleeps w @ map backoff [0..<n], fetches = fetches w, deletes = deletes w \<rparr>"

section \<open>Vocabulary of the statements about the pages\<close>

text \<open>
  \<open>page_limit\<close> is \<open>self.page_size or 1000\<close>. A \<open>served\<close> page is a page as the
  server sends it, \<open>hdr\<close> its first row and \<open>rows\<close> the others, \<open>nxt\<close> its cursor,
  with the codec the CSV library builds from \<open>hdr\<close> and the records it decodes
  \<open>rows\<close> to. \<open>chain env d limit k c ps\<close> says that the fetches number
  \<open>k, k + 1, ...\<close>, the first with cursor \<open>c\<close> and each later one with the cursor of
  the page before, are answered with the pages \<open>ps\<close>; that every page but the last has
  a cursor and a row beyond its first, and the last has no cursor.
\<close>

definition page_limit :: "'c SObjectQuery \<Rightarrow> int" where
  "page_limit q = (case page_size q of None \<Rightarrow> 1000 | Some n \<Rightarrow> if n = 0 then 1000 else n)"

record ('c, 'r) served =
  hdr :: "string list"
  rows :: "string list list"
  nxt :: "string option"
  row_codec :: 'c
  recs :: "'r list"

fun chain ::
  "('c, 'r) job_env \<Rightarrow> (string \<times> opttype) list \<Rightarrow> int \<Rightarrow> nat \<Rightarrow> string option
    \<Rightarrow> ('c, 'r) served list \<Rightarrow> bool" where
  "chain env d limit k c [] = True"
| "chain env d limit k c (p # ps) =
     (results_reply env k limit c = Inr \<lparr> items = hdr p # rows p, page_cursor = nxt p \<rparr>
      \<and> typeddict_codec env d (hdr p) = Inr (row_codec p)
      \<and> map (decode env (row_codec p)) (rows p) = map Inr (recs p)
      \<and> (if ps = [] then \<not> truthy (nxt p) else truthy (nxt p) \<and> rows p \<noteq> [])
      \<and> chain env d limit (Suc k) (nxt p) ps)"

section \<open>Concrete inputs\<close>

text \<open>A small catalog on which the theorems below are instantiated.\<close>

definition employees_field :: Field where
  "employees_field = \<lparr> field_name = ''NumberOfEmployees'', field_type = ''int'',
     field_length = 8, field_nillable = True \<rparr>"

definition account :: SObject where
  "account = \<lparr> sobject_name = ''Account'',
     sobject_fields =
       [\<lparr> field_name = ''Id'', field_type = ''id'', field_length = 18,
          field_nillable = False \<rparr>,
        \<lparr> field_name = ''Name'', field_type = ''string'', field_length = 255,
          field_nillable = False \<rparr>,
        \<lparr> field_name = ''BillingAddress'', field_type = ''address'', field_length = 0,
          field_nillable = True \<rparr>,
        employees_field] \<rparr>"

text \<open>
  A job whose status polls answer \<open>states\<close> and take no time, with a row codec that
  pairs the header's columns with a row's values; an object that has entered its
  context (\<open>entered_init\<close> below); and the world at the start.
\<close>

definition job_of ::
  "(nat \<Rightarrow> error + string) \<Rightarrow> (string list, (string \<times> string) list) job_env" where
  "job_of states =
     \<lparr> info_reply = states, info_cost = (\<lambda>k. 0),
       results_reply = (\<lambda>k limit c. Inl NotFoundError),
       delete_reply = (\<lambda>k. None),
       typeddict_codec = (\<lambda>d columns. Inr columns),
       decode = (\<lambda>columns row. Inr (zip columns row)) \<rparr>"

definition slow_job :: "(string list, (string \<times> string) list) job_env" where
  "slow_job = job_of (\<lambda>k. if k < 8 then Inr ''InProgress'' else Inr ''JobComplete'')"

definition stuck_job :: "(string list, (string \<times> string) list) job_env" where
  "stuck_job = job_of (\<lambda>k. Inr ''InProgress'')"

text \<open>
  Two jobs that stay \<open>InProgress\<close>: the status polls of one take 3 time units
  each, those of the other 100.
\<close>

definition costly_job :: "(string list, (string \<times> string) list) job_env" where
  "costly_job = (job_of (\<lambda>k. Inr ''InProgress''))\<lparr>info_cost := (\<lambda>k. 3)\<rparr>"

definition hung_job :: "(string list, (string \<times> string) list) job_env" where
  "hung_job = (job_of (\<lambda>k. Inr ''InProgress''))\<lparr>info_cost := (\<lambda>k. 100)\<rparr>"

definition entered :: "int option \<Rightarrow> string list SObjectQuery" where
  "entered tmo =
     \<lparr> page_size = None,
       td = [(''Id'', Optional (AnnotatedMaxLen PyStr 18)),
             (''Name'', Optional (AnnotatedMaxLen PyStr 255))],
       stmt = ''SELECT Id, Name FROM Account'',
       timeout = tmo, query = Some ''750R0000000zlh9'', results = None, header = None,
       cursor = None, codec = None \<rparr>"

definition world0 :: world where
  "world0 = \<lparr> now = 0, polls = 0, sleeps = [], fetches = [], deletes = 0 \<rparr>"

text \<open>
  Two credentials, the responses 401 and 200, and three networks: one that answers 401
  and then 200, one that always answers 401, and one whose \<open>authenticate\<close> fails.
\<close>

definition token_a :: Token where
  "token_a = \<lparr> access_token = ''00Dxx!AQEA'', instance_url = ''https://na1.example.com'' \<rparr>"

definition token_b :: Token where
  "token_b = \<lparr> access_token = ''00Dxx!AQEB'', instance_url = ''https://na1.example.com'' \<rparr>"

definition resp_401 :: response where
  "resp_401 = \<lparr> status = 401, body_text = ''Session expired or invalid'', headers = [] \<rparr>"

definition resp_200 :: response where
  "resp_200 = \<lparr> status = 200, body_text = ''{}'', headers = [] \<rparr>"

definition net_refresh :: net where
  "net_refresh = \<lparr> authenticate = (\<lambda>k. Inr (if k = 0 then token_a else token_b)),
     http_reply = (\<lambda>k. Inr (if k = 0 then resp_401 else resp_200)) \<rparr>"

definition net_denied :: net where
  "net_denied = \<lparr> authenticate = (\<lambda>k. Inr token_b), http_reply = (\<lambda>k. Inr resp_401) \<rparr>"

definition net_no_auth :: net where
  "net_no_auth = \<lparr> authenticate = (\<lambda>k. Inl (OtherError ''invalid_grant'')),
     http_reply = (\<lambda>k. Inr resp_401) \<rparr>"

definition get_job :: request_args where
  "get_job = \<lparr> arg_method = ''GET'', arg_path = ''/services/data/v54.0/jobs/query/750'',
     arg_headers = None, arg_params = [], arg_json = None \<rparr>"

definition client0 :: Client where
  "client0 = \<lparr> token = None, auth_calls = 0, sent = [] \<rparr>"

text \<open>
  A job that has failed; a job that stays \<open>InProgress\<close> and whose deletion fails; a
  completed job whose first result page has no row at all.
\<close>

definition failed_job :: "(string list, (string \<times> string) list) job_env" where
  "failed_job = job_of (\<lambda>k. Inr ''Failed'')"

definition undeletable_job :: "(string list, (string \<times> string) list) job_env" where
  "undeletable_job =
     (job_of (\<lambda>k. Inr ''InProgress''))
       \<lparr>delete_reply := (\<lambda>k. Some (StatusError 500 ''Server Error''))\<rparr>"

definition empty_page_job :: "(string list, (string \<times> string) list) job_env" where
  "empty_page_job =
     (job_of (\<lambda>k. Inr ''JobComplete''))
       \<lparr>results_reply := (\<lambda>k limit c. Inr \<lparr> items = [], page_cursor = None \<rparr>)\<rparr>"

text \<open>
  A completed job of two pages, the first with cursor \<open>A\<close>, the second with none;
  once with a second page that has no header row of its own, once with one that has.
\<close>

definition paged_job ::
  "string list list \<Rightarrow> string list list \<Rightarrow> (string list, (string \<times> string) list) job_env" where
  "paged_job first second =
     (job_of (\<lambda>k. Inr ''JobComplete''))
       \<lparr>results_reply := (\<lambda>k limit c.
          if c = None then Inr \<lparr> items = first, page_cursor = Some ''A'' \<rparr>
          else if c = Some ''A'' then Inr \<lparr> items = second, page_cursor = None \<rparr>
          else Inl NotFoundError)\<rparr>"

definition unheaded_pages :: "(string list, (string \<times> string) list) job_env" where
  "unheaded_pages =
     paged_job [[''Id'', ''Name''], [''001'', ''Acme''], [''002'', ''Bolt'']]
       [[''003'', ''Cog'']]"

definition headed_pages :: "(string list, (string \<times> string) list) job_env" where
  "headed_pages =
     paged_job [[''Id'', ''Name''], [''001'', ''Acme''], [''002'', ''Bolt'']]
       [[''Id'', ''Name''], [''003'', ''Cog'']]"

definition page_one :: "(string list, (string \<times> string) list) served" where
  "page_one =
     \<lparr> hdr = [''Id'', ''Name''], rows = [[''001'', ''Acme''], [''002'', ''Bolt'']],
       nxt = Some ''A'', row_codec = [''Id'', ''Name''],
       recs = [[(''Id'', ''001''), (''Name'', ''Acme'')],
               [(''Id'', ''002''), (''Name'', ''Bolt'')]] \<rparr>"

definition page_two_unheaded :: "(string list, (string \<times> string) list) served" where
  "page_two_unheaded =
     \<lparr> hdr = [''003'', ''Cog''], rows = [], nxt = None, row_codec = [''003'', ''Cog''],
       recs = [] \<rparr>"

definition page_two_headed :: "(string list, (string \<times> string) list) served" where
  "page_two_headed =
     \<lparr> hdr = [''Id'', ''Name''], rows = [[''003'', ''Cog'']], nxt = None,
       row_codec = [''Id'', ''Name''],
       recs = [[(''Id'', ''003''), (''Name'', ''Cog'')]] \<rparr>"

section \<open>Field types\<close>

lemma in_FieldType: "t \<in> FieldType \<Longrightarrow> \<exists>p. map_of type_mappings t = Some p"
  unfolding FieldType_def by (cases "map_of type_mappings t") (auto simp: map_of_eq_None_iff)

text \<open>
  C8, as stated, fails: the claim attaches the maximum length exactly for string-like
  types with a nonzero length. The code looks at the length alone: an \<open>int\<close> field
  whose catalog entry declares length 8 is accepted into a schema, is not string-like,
  and gets \<open>MaxLen(8)\<close>.
\<close>

theorem sobject_field_type_max_len_on_int:
  "sobject_field_type employees_field = Inr (Optional (AnnotatedMaxLen PyInt 8))
   \<and> field_type employees_field \<in> FieldType
   \<and> field_type employees_field \<notin> exclude_types
   \<and> field_length employees_field = 8
   \<and> has_max_len (Optional (AnnotatedMaxLen PyInt 8))
   \<and> \<not> string_like (field_type employees_field)"
  by (simp add: employees_field_def sobject_field_type_def type_mappings_def FieldType_def
      exclude_types_def string_like_def)

text \<open>
  C8, amended: for every field whose type tag is one of \<open>FieldType\<close> (so every field a
  schema accepts), \<open>sobject_field_type\<close> returns \<open>Optional[...]\<close> of the table's type
  whatever the field's \<open>nillable\<close> flag is, and it attaches \<open>MaxLen(length)\<close> exactly
  when the catalog entry declares a nonzero length, whatever the type.
\<close>

theorem sobject_field_type_optional:
  assumes "field_type f \<in> FieldType"
  shows "\<exists>p. map_of type_mappings (field_type f) = Some p
     \<and> sobject_field_type f =
         Inr (Optional (if field_length f \<noteq> 0 then AnnotatedMaxLen p (field_length f)
                        else Plain p))
     \<and> sobject_field_type (f\<lparr>field_nillable := b\<rparr>) = sobject_field_type f
     \<and> (\<forall>t. sobject_field_type f = Inr t \<longrightarrow> (has_max_len t \<longleftrightarrow> field_length f \<noteq> 0))"
proof -
  from in_FieldType [OF assms] obtain p where "map_of type_mappings (field_type f) = Some p" ..
  then show ?thesis by (auto simp: sobject_field_type_def)
qed

text \<open>
  Witness for C8: the \<open>int\<close> field of length 8, with the flag set and cleared, and the
  same field with length 0.
\<close>

theorem sobject_field_type_optional_witness:
  "field_type employees_field \<in> FieldType \<and>
   sobject_field_type employees_field = Inr (Optional (AnnotatedMaxLen PyInt 8)) \<and>
   sobject_field_type (employees_field\<lparr>field_nillable := False\<rparr>)
     = Inr (Optional (AnnotatedMaxLen PyInt 8)) \<and>
   sobject_field_type (employees_field\<lparr>field_length := 0\<rparr>) = Inr (Optional (Plain PyInt))"
proof -
  have h: "field_type employees_field \<in> FieldType"
    by (simp add: employees_field_def FieldType_def type_mappings_def)
  have h0: "field_type (employees_field\<lparr>field_length := 0\<rparr>) \<in> FieldType"
    by (simp add: employees_field_def FieldType_def type_mappings_def)
  have p: "map_of type_mappings (field_type employees_field) = Some PyInt"
    by (simp add: employees_field_def type_mappings_def)
  from sobject_field_type_optional [OF h, of False]
    sobject_field_type_optional [OF h0, of False] p h
  show ?thesis
    by (auto simp: employees_field_def)
qed

section \<open>Schema construction\<close>

lemma dom_indexed_of: "dom (indexed_of fs) = field_name ` set fs"
  by (auto simp: indexed_of_def dom_map_of_conv_image_fst image_image)

lemma check_fields_None:
  "check_fields ix fs = None \<longleftrightarrow>
    (\<forall>n\<in>set fs. \<exists>f. ix n = Some f \<and> field_type f \<notin> exclude_types)"
  by (induction fs) (auto split: option.splits)

lemma check_fields_Some: "check_fields ix fs = Some e \<Longrightarrow> \<exists>m. e = ValueError m"
  by (induction fs) (auto split: option.splits if_splits)

lemma dict_set_fresh: "k \<notin> fst ` set d \<Longrightarrow> dict_set d k v = d @ [(k, v)]"
  by (induction d k v rule: dict_set.induct) auto

lemma build_td_ok:
  assumes "distinct fs" "set fs \<inter> fst ` set acc = {}"
    "\<forall>n\<in>set fs. \<exists>f. ix n = Some f \<and> field_type f \<in> FieldType"
  shows "\<exists>d. build_td ix acc fs = Inr (acc @ d) \<and>
     list_all2 (\<lambda>n e. fst e = n \<and> (\<exists>f. ix n = Some f \<and> sobject_field_type f = Inr (snd e)))
       fs d"
  using assms
proof (induction fs arbitrary: acc)
  case Nil
  then show ?case by simp
next
  case (Cons n fs)
  from Cons.prems obtain f where f: "ix n = Some f" "field_type f \<in> FieldType" by auto
  from in_FieldType [OF f(2)] obtain t where t: "sobject_field_type f = Inr t"
    by (auto simp: sobject_field_type_def)
  have fresh: "n \<notin> fst ` set acc" using Cons.prems by auto
  have "set fs \<inter> fst ` set (acc @ [(n, t)]) = {}" using Cons.prems by auto
  with Cons.IH [of "acc @ [(n, t)]"] Cons.prems obtain d where
    d: "build_td ix (acc @ [(n, t)]) fs = Inr ((acc @ [(n, t)]) @ d)"
       "list_all2 (\<lambda>n e. fst e = n \<and>
          (\<exists>f. ix n = Some f \<and> sobject_field_type f = Inr (snd e))) fs d"
    by auto
  show ?case
    by (rule exI [of _ "(n, t) # d"]) (use f t d fresh in \<open>simp add: dict_set_fresh\<close>)
qed

lemma init_check_fail:
  "check_fields (indexed_of (sobject_fields sobject)) fs = Some (ValueError m) \<Longrightarrow>
   \<exists>m'. init sobject (Some fs) whr order_by limit pgsize tmo = Inl (ValueError m')"
  by (simp add: init_def Let_def)

lemma init_ok:
  "fs \<noteq> [] \<Longrightarrow> check_fields (indexed_of (sobject_fields sobject)) fs = None \<Longrightarrow>
   build_td (indexed_of (sobject_fields sobject)) [] fs = Inr d \<Longrightarrow>
   \<exists>q. init sobject (Some fs) whr order_by limit pgsize tmo = Inr q \<and> td q = d"
  by (simp add: init_def Let_def)

text \<open>
  C7: with \<open>ix\<close> the catalog indexed by name, \<open>__init__\<close> raises \<open>ValueError\<close> for the
  empty request, for a request with a name that no catalog field has, and for a request
  with a name whose field is of type \<open>address\<close> or \<open>location\<close>. For a non-empty
  request with none of these it returns the object, whose \<open>td\<close> has exactly one entry
  per requested name, in request order, each with the type \<open>sobject_field_type\<close> gives
  the field. The request is a set (\<open>distinct\<close>), and the catalog's type tags are of the
  declared \<open>FieldType\<close>.
\<close>

theorem init_schema:
  fixes sobject :: SObject and fs :: "string list"
    and whr order_by :: "string option" and limit pgsize tmo :: "int option"
  defines "ix \<equiv> indexed_of (sobject_fields sobject)"
  defines "r \<equiv> (init sobject (Some fs) whr order_by limit pgsize tmo :: error + 'c SObjectQuery)"
  shows
    "(fs = [] \<longrightarrow> (\<exists>m. r = Inl (ValueError m))) \<and>
     ((\<exists>n\<in>set fs. n \<notin> field_name ` set (sobject_fields sobject)) \<longrightarrow>
        (\<exists>m. r = Inl (ValueError m))) \<and>
     ((\<exists>n\<in>set fs. \<exists>f. ix n = Some f \<and> field_type f \<in> exclude_types) \<longrightarrow>
        (\<exists>m. r = Inl (ValueError m))) \<and>
     (fs \<noteq> [] \<and> distinct fs \<and>
      (\<forall>n\<in>set fs. \<exists>f. ix n = Some f \<and> field_type f \<in> FieldType - exclude_types) \<longrightarrow>
        (\<exists>q. r = Inr q \<and> map fst (td q) = fs \<and>
           list_all2 (\<lambda>n e. fst e = n \<and>
             (\<exists>f. ix n = Some f \<and> sobject_field_type f = Inr (snd e))) fs (td q)))"
proof (intro conjI impI)
  assume "fs = []"
  then show "\<exists>m. r = Inl (ValueError m)" by (simp add: r_def init_def Let_def)
next
  assume "\<exists>n\<in>set fs. n \<notin> field_name ` set (sobject_fields sobject)"
  then obtain n where n: "n \<in> set fs" "ix n = None"
    using dom_indexed_of [of "sobject_fields sobject"] by (auto simp: ix_def)
  then have "check_fields ix fs \<noteq> None" unfolding check_fields_None by force
  then obtain e where "check_fields ix fs = Some e" by auto
  with check_fields_Some [OF this] show "\<exists>m. r = Inl (ValueError m)"
    unfolding r_def ix_def by (blast dest: init_check_fail)
next
  assume "\<exists>n\<in>set fs. \<exists>f. ix n = Some f \<and> field_type f \<in> exclude_types"
  then have "check_fields ix fs \<noteq> None" unfolding check_fields_None by force
  then obtain e where "check_fields ix fs = Some e" by auto
  with check_fields_Some [OF this] show "\<exists>m. r = Inl (ValueError m)"
    unfolding r_def ix_def by (blast dest: init_check_fail)
next
  assume a: "fs \<noteq> [] \<and> distinct fs \<and>
      (\<forall>n\<in>set fs. \<exists>f. ix n = Some f \<and> field_type f \<in> FieldType - exclude_types)"
  then have c: "check_fields ix fs = None" by (auto simp: check_fields_None)
  from a have "\<forall>n\<in>set fs. \<exists>f. ix n = Some f \<and> field_type f \<in> FieldType" by blast
  with build_td_ok [of fs "[]" ix] a obtain d where
    d: "build_td ix [] fs = Inr d"
       "list_all2 (\<lambda>n e. fst e = n \<and>
             (\<exists>f. ix n = Some f \<and> sobject_field_type f = Inr (snd e))) fs d"
    by auto
  from d(2) have "map fst d = fs"
    by (induction fs d rule: list_all2_induct) auto
  moreover from a c d(1) obtain q where "r = Inr q" "td q = d"
    unfolding r_def ix_def by (blast dest: init_ok)
  ultimately show "\<exists>q. r = Inr q \<and> map fst (td q) = fs \<and>
           list_all2 (\<lambda>n e. fst e = n \<and>
             (\<exists>f. ix n = Some f \<and> sobject_field_type f = Inr (snd e))) fs (td q)"
    using d(2) by simp
qed

lemma ix_account:
  "indexed_of (sobject_fields account) ''Id'' =
     Some \<lparr> field_name = ''Id'', field_type = ''id'', field_length = 18,
            field_nillable = False \<rparr>"
  "indexed_of (sobject_fields account) ''Name'' =
     Some \<lparr> field_name = ''Name'', field_type = ''string'', field_length = 255,
            field_nillable = False \<rparr>"
  "indexed_of (sobject_fields account) ''BillingAddress'' =
     Some \<lparr> field_name = ''BillingAddress'', field_type = ''address'', field_length = 0,
            field_nillable = True \<rparr>"
  by (simp_all add: indexed_of_def account_def employees_field_def)

text \<open>
  Witness for C7, on the catalog \<open>account\<close>: the empty request, a request naming the
  unknown \<open>Fax\<close>, a request naming the \<open>address\<close> field, and the request
  \<open>Name, Id\<close>, whose schema has these two entries in this order.
\<close>

theorem init_schema_witness:
  "(\<exists>m. (init account (Some []) None None None None None :: error + unit SObjectQuery)
       = Inl (ValueError m)) \<and>
   ''Fax'' \<in> set [''Id'', ''Fax''] \<and> ''Fax'' \<notin> field_name ` set (sobject_fields account) \<and>
   (\<exists>m. (init account (Some [''Id'', ''Fax'']) None None None None None
        :: error + unit SObjectQuery) = Inl (ValueError m)) \<and>
   field_type (the (indexed_of (sobject_fields account) ''BillingAddress'')) \<in> exclude_types \<and>
   (\<exists>m. (init account (Some [''Id'', ''BillingAddress'']) None None None None None
        :: error + unit SObjectQuery) = Inl (ValueError m)) \<and>
   distinct [''Name'', ''Id''] \<and>
   (\<exists>q. (init account (Some [''Name'', ''Id'']) None None None None (Some 30)
        :: error + unit SObjectQuery) = Inr q \<and>
      td q = [(''Name'', Optional (AnnotatedMaxLen PyStr 255)),
              (''Id'', Optional (AnnotatedMaxLen PyStr 18))])"
proof -
  have 1: "\<exists>m. (init account (Some []) None None None None None :: error + unit SObjectQuery)
       = Inl (ValueError m)"
    using init_schema [where 'c = unit and sobject = account and fs = "[]" and whr = None
        and order_by = None and limit = None and pgsize = None and tmo = None]
    by simp
  have h2: "''Fax'' \<in> set [''Id'', ''Fax'']"
    "''Fax'' \<notin> field_name ` set (sobject_fields account)"
    by (simp_all add: account_def employees_field_def)
  then have 2: "\<exists>m. (init account (Some [''Id'', ''Fax'']) None None None None None
        :: error + unit SObjectQuery) = Inl (ValueError m)"
    using init_schema [where 'c = unit and sobject = account and fs = "[''Id'', ''Fax'']"
        and whr = None and order_by = None and limit = None and pgsize = None and tmo = None]
    by blast
  have h3: "field_type (the (indexed_of (sobject_fields account) ''BillingAddress''))
      \<in> exclude_types"
    by (simp add: ix_account exclude_types_def)
  then have 3: "\<exists>m. (init account (Some [''Id'', ''BillingAddress'']) None None None None None
        :: error + unit SObjectQuery) = Inl (ValueError m)"
    using init_schema [where 'c = unit and sobject = account
        and fs = "[''Id'', ''BillingAddress'']"
        and whr = None and order_by = None and limit = None and pgsize = None and tmo = None]
    by (simp add: ix_account)
  have h4: "[''Name'', ''Id''] \<noteq> [] \<and> distinct [''Name'', ''Id''] \<and>
      (\<forall>n\<in>set [''Name'', ''Id'']. \<exists>f. indexed_of (sobject_fields account) n = Some f \<and>
          field_type f \<in> FieldType - exclude_types)"
    by (simp add: ix_account exclude_types_def FieldType_def type_mappings_def)
  with init_schema [where 'c = unit and sobject = account and fs = "[''Name'', ''Id'']"
        and whr = None and order_by = None and limit = None and pgsize = None
        and tmo = "Some 30"]
  obtain q where q: "(init account (Some [''Name'', ''Id'']) None None None None (Some 30)
        :: error + unit SObjectQuery) = Inr q"
     "list_all2 (\<lambda>n e. fst e = n \<and>
             (\<exists>f. indexed_of (sobject_fields account) n = Some f \<and>
                 sobject_field_type f = Inr (snd e))) [''Name'', ''Id''] (td q)"
    by blast
  from q(2) have "td q = [(''Name'', Optional (AnnotatedMaxLen PyStr 255)),
              (''Id'', Optional (AnnotatedMaxLen PyStr 18))]"
    by (auto simp: list_all2_Cons1 ix_account sobject_field_type_def type_mappings_def
        prod_eq_iff)
  with 1 h2 2 h3 3 q(1) show ?thesis by simp
qed

section \<open>Waiting for the job\<close>

lemma backoff_Suc: "min (backoff k * 2) 60 = backoff (Suc k)"
proof -
  consider "k < 5" | "k = 5" | "5 < k" by linarith
  then show ?thesis
  proof cases
    case 1
    then have "k \<in> {0, 1, 2, 3, 4}" by auto
    then show ?thesis by (auto simp: backoff_def)
  next
    case 2
    then show ?thesis by (simp add: backoff_def)
  next
    case 3
    then show ?thesis by (simp add: backoff_def)
  qed
qed

lemma world_eq:
  "w\<lparr>polls := a, now := b, sleeps := c\<rparr> =
    \<lparr> now = b, polls = a, sleeps = c, fetches = fetches w, deletes = deletes w \<rparr>"
  "w\<lparr>polls := a, now := b\<rparr> =
    \<lparr> now = b, polls = a, sleeps = sleeps w, fetches = fetches w, deletes = deletes w \<rparr>"
  by (cases w, simp)+

lemma backoff_0: "backoff 0 = 1"
  by (simp add: backoff_def)

lemma await_loop_step:
  assumes "query q = Some job" "info_reply env (polls w) = Inr s" "s \<in> incomplete"
    "\<not> deadline_passed (timeout q) (now w + int (info_cost env (polls w)) - start)"
  shows "await_loop env q start sleep w =
    await_loop env q start (min (sleep * 2) 60)
      \<lparr> now = now w + int (info_cost env (polls w)) + sleep, polls = polls w + 1,
        sleeps = sleeps w @ [sleep], fetches = fetches w, deletes = deletes w \<rparr>"
  using assms by (subst await_loop.simps) (simp add: info_def incomplete_def world_eq)

lemma await_loop_done:
  assumes "query q = Some job" "info_reply env (polls w) = Inr s" "s \<notin> incomplete"
  shows "await_loop env q start sleep w =
    Some (verdict s,
      \<lparr> now = now w + int (info_cost env (polls w)), polls = polls w + 1,
        sleeps = sleeps w, fetches = fetches w, deletes = deletes w \<rparr>)"
  using assms by (subst await_loop.simps) (simp add: info_def incomplete_def verdict_def world_eq)

lemma await_loop_deadline:
  assumes "query q = Some job" "info_reply env (polls w) = Inr s" "s \<in> incomplete"
    "deadline_passed (timeout q) (now w + int (info_cost env (polls w)) - start)"
  shows "await_loop env q start sleep w =
    Some (Inl TimeoutError,
      \<lparr> now = now w + int (info_cost env (polls w)), polls = polls w + 1,
        sleeps = sleeps w, fetches = fetches w, deletes = deletes w \<rparr>)"
  using assms by (subst await_loop.simps) (simp add: info_def incomplete_def world_eq)

lemma await_loop_error:
  assumes "query q = Some job" "info_reply env (polls w) = Inl e"
  shows "await_loop env q start sleep w =
    Some (Inl e,
      \<lparr> now = now w + int (info_cost env (polls w)), polls = polls w + 1,
        sleeps = sleeps w, fetches = fetches w, deletes = deletes w \<rparr>)"
  using assms by (subst await_loop.simps) (simp add: info_def world_eq)

lemma waited_0: "waited env w 0 = w"
  by (simp add: waited_def)

lemma await_complete_waits:
  assumes q: "query q = Some job"
    and inc: "\<forall>i<n. \<exists>s. info_reply env (polls w + i) = Inr s \<and> s \<in> incomplete"
    and dl: "\<forall>i<n. \<not> deadline_passed (timeout q) (poll_time env (polls w) i)"
  shows "await_complete env q w = await_loop env q (now w) (backoff n) (waited env w n)"
  using inc dl
proof (induction n)
  case 0
  show ?case by (simp add: await_complete_def waited_0 backoff_0)
next
  case (Suc n)
  from Suc.prems obtain s where s: "info_reply env (polls w + n) = Inr s" "s \<in> incomplete"
    by auto
  from Suc.prems have d: "\<not> deadline_passed (timeout q) (poll_time env (polls w) n)"
    by simp
  have "await_complete env q w = await_loop env q (now w) (backoff n) (waited env w n)"
    using Suc by simp
  also have "\<dots> = await_loop env q (now w) (backoff (Suc n)) (waited env w (Suc n))"
    using s d
    by (subst await_loop_step [OF q, where s = s])
       (simp_all add: waited_def poll_time_def backoff_Suc add_ac)
  finally show ?case .
qed



lemma backoff_prefix: "map backoff [0..<9] = [1, 2, 4, 8, 16, 32, 60, 60, 60]"
  by (simp add: backoff_def upt_rec)

lemma await_complete_final:
  assumes "query q = Some job" "info_reply env (polls w) = Inr s" "s \<notin> incomplete"
  shows "await_complete env q w =
    Some (verdict s,
      \<lparr> now = now w + int (info_cost env (polls w)), polls = polls w + 1,
        sleeps = sleeps w, fetches = fetches w, deletes = deletes w \<rparr>)"
  unfolding await_complete_def using assms by (rule await_loop_done)

lemma await_complete_raises:
  assumes q: "query q = Some job"
    and inc: "\<forall>i\<le>m. \<exists>s. info_reply env (polls w + i) = Inr s \<and> s \<in> incomplete"
    and before: "\<forall>i<m. \<not> deadline_passed (timeout q) (poll_time env (polls w) i)"
    and late: "deadline_passed (timeout q) (poll_time env (polls w) m)"
  shows "await_complete env q w = Some (Inl TimeoutError, polled env w m)"
proof -
  from inc obtain s where s: "info_reply env (polls w + m) = Inr s" "s \<in> incomplete"
    by auto
  have "\<forall>i<m. \<exists>s. info_reply env (polls w + i) = Inr s \<and> s \<in> incomplete"
    using inc by auto
  then have "await_complete env q w =
      await_loop env q (now w) (backoff m) (waited env w m)"
    using before by (rule await_complete_waits [OF q])
  also have "\<dots> = Some (Inl TimeoutError, polled env w m)"
    using s late
    by (subst await_loop_deadline [OF q, where s = s])
       (simp_all add: waited_def polled_def poll_time_def)
  finally show ?thesis .
qed

text \<open>
  C5: when the first \<open>n\<close> polls observe an incomplete job, no deadline falls on them,
  and the next poll observes any other state \<open>s\<close>, then \<open>_await_complete\<close> returns
  after exactly \<open>n + 1\<close> polls, having waited \<open>backoff 0, ..., backoff (n - 1)\<close> between
  them, that is 1, 2, 4, 8, 16, 32, 60, 60, 60, ...; it returns normally for
  \<open>JobComplete\<close> and raises \<open>RuntimeError\<close> with the observed state otherwise.
\<close>

theorem await_complete_backoff:
  assumes "query q = Some job"
    and "\<forall>i<n. \<exists>s. info_reply env (polls w + i) = Inr s \<and> s \<in> incomplete"
    and "\<forall>i<n. \<not> deadline_passed (timeout q) (poll_time env (polls w) i)"
    and "info_reply env (polls w + n) = Inr s" and "s \<notin> incomplete"
  shows "\<exists>w'. await_complete env q w =
           Some (if s = ''JobComplete'' then Inr ()
                 else Inl (RuntimeError (''unexpected job state: '' @ s)), w')
         \<and> polls w' = polls w + n + 1
         \<and> sleeps w' = sleeps w @ map backoff [0..<n]
         \<and> now w' = now w + poll_time env (polls w) n
         \<and> map backoff [0..<9] = [1, 2, 4, 8, 16, 32, 60, 60, 60]
         \<and> (\<forall>k\<ge>6. backoff k = 60)"
proof -
  have "await_complete env q w = await_loop env q (now w) (backoff n) (waited env w n)"
    using assms(1-3) by (rule await_complete_waits)
  also have "\<dots> = Some (verdict s, polled env w n)"
    using assms(4,5)
    by (subst await_loop_done [OF assms(1), where s = s])
       (simp_all add: waited_def polled_def poll_time_def)
  finally show ?thesis
    by (simp add: verdict_def polled_def backoff_prefix) (simp add: backoff_def)
qed

text \<open>
  C6, amended: with a deadline \<open>t\<close> other than 0 and a job that the polls see
  incomplete until the elapsed time of one of them has reached \<open>t\<close>,
  \<open>_await_complete\<close> raises \<open>TimeoutError\<close> at the first poll \<open>m\<close> whose elapsed
  time has reached \<open>t\<close>. Every wait was started before the deadline. For \<open>t > 0\<close>
  the elapsed time exceeds the deadline by less than the last wait plus the duration of
  the poll that follows it; where that poll takes no time, by less than one backoff
  interval.
\<close>

theorem await_complete_deadline:
  assumes q: "query q = Some job" and t: "timeout q = Some t" "t \<noteq> 0"
    and inc: "\<forall>i\<le>k. \<exists>s. info_reply env (polls w + i) = Inr s \<and> s \<in> incomplete"
    and late: "t \<le> poll_time env (polls w) k"
  shows "\<exists>w' m. m \<le> k
         \<and> await_complete env q w = Some (Inl TimeoutError, w')
         \<and> polls w' = polls w + m + 1
         \<and> sleeps w' = sleeps w @ map backoff [0..<m]
         \<and> now w' - now w = poll_time env (polls w) m
         \<and> t \<le> now w' - now w
         \<and> (\<forall>i<m. poll_time env (polls w) i < t)
         \<and> (0 < t \<longrightarrow>
               now w' - now w
                 < t + (if m = 0 then 0 else backoff (m - 1))
                     + int (info_cost env (polls w + m)))
         \<and> (0 < t \<and> info_cost env (polls w + m) = 0 \<longrightarrow>
               0 < m \<and> now w' - now w < t + backoff (m - 1))"
proof -
  define m where "m = (LEAST i. t \<le> poll_time env (polls w) i)"
  have m: "t \<le> poll_time env (polls w) m" unfolding m_def using late by (rule LeastI)
  have mk: "m \<le> k" unfolding m_def using late by (rule Least_le)
  have before: "poll_time env (polls w) i < t" if "i < m" for i
    using not_less_Least [of i "\<lambda>i. t \<le> poll_time env (polls w) i"] that
    by (simp add: m_def)
  from inc mk obtain s where s: "info_reply env (polls w + m) = Inr s" "s \<in> incomplete"
    by auto
  have "\<forall>i<m. \<exists>s. info_reply env (polls w + i) = Inr s \<and> s \<in> incomplete"
    using inc mk by auto
  moreover have "\<forall>i<m. \<not> deadline_passed (timeout q) (poll_time env (polls w) i)"
  proof (intro allI impI)
    fix i assume "i < m"
    from before [OF this] t show "\<not> deadline_passed (timeout q) (poll_time env (polls w) i)"
      by (simp add: deadline_passed_def)
  qed
  ultimately have "await_complete env q w =
      await_loop env q (now w) (backoff m) (waited env w m)"
    by (rule await_complete_waits [OF q])
  also have "\<dots> = Some (Inl TimeoutError, polled env w m)"
    using s m t
    by (subst await_loop_deadline [OF q, where s = s])
       (simp_all add: waited_def polled_def poll_time_def deadline_passed_def)
  finally have run: "await_complete env q w = Some (Inl TimeoutError, polled env w m)" .
  have bound: "poll_time env (polls w) m
      < t + (if m = 0 then 0 else backoff (m - 1)) + int (info_cost env (polls w + m))"
    if pos: "0 < t"
  proof (cases m)
    case 0
    then show ?thesis using pos by (simp add: poll_time_def)
  next
    case (Suc j)
    with before [of j] show ?thesis by (simp add: poll_time_def)
  qed
  have instant: "0 < m \<and> poll_time env (polls w) m < t + backoff (m - 1)"
    if c: "0 < t \<and> info_cost env (polls w + m) = 0"
  proof -
    have "m \<noteq> 0"
    proof
      assume "m = 0"
      with m c show False by (simp add: poll_time_def)
    qed
    with bound c show ?thesis by simp
  qed
  have w': "polls (polled env w m) = polls w + m + 1"
    "sleeps (polled env w m) = sleeps w @ map backoff [0..<m]"
    "now (polled env w m) - now w = poll_time env (polls w) m"
    by (simp_all add: polled_def)
  show ?thesis
    apply (rule exI [of _ "polled env w m"], rule exI [of _ m])
    unfolding w'
    using mk run m before bound instant
    apply (intro conjI)
    apply blast+
    done
qed


lemma await_loop_same:
  fixes env :: "('c, 'r) job_env" and q q' :: "'c SObjectQuery"
  assumes run: "await_loop env q start0 sleep0 w0 = Some y0"
    and same: "query q' = query q"
      "\<forall>e. deadline_passed (timeout q') e = deadline_passed (timeout q) e"
  shows "await_loop env q' start0 sleep0 w0 = Some y0"
proof -
  have "\<forall>Q' :: 'c SObjectQuery. query Q' = query q \<and>
      (\<forall>e. deadline_passed (timeout Q') e = deadline_passed (timeout q) e)
      \<longrightarrow> await_loop env Q' start0 sleep0 w0 = Some y0"
  proof (rule await_loop.raw_induct [where P = "\<lambda>(E :: ('c, 'r) job_env) (Q :: 'c SObjectQuery)
      start sleep w y. \<forall>Q' :: 'c SObjectQuery. query Q' = query Q \<and>
        (\<forall>e. deadline_passed (timeout Q') e = deadline_passed (timeout Q) e)
        \<longrightarrow> await_loop E Q' start sleep w = Some y", OF _ run])
  fix f :: "('c, 'r) job_env \<Rightarrow> 'c SObjectQuery \<Rightarrow> int \<Rightarrow> int \<Rightarrow> world
      \<Rightarrow> ((error + unit) \<times> world) option"
  fix E :: "('c, 'r) job_env" and Q :: "'c SObjectQuery" and start sleep w y
    assume IH: "\<And>E Q start sleep w y. f E Q start sleep w = Some y \<Longrightarrow>
        \<forall>Q' :: 'c SObjectQuery. query Q' = query Q \<and>
          (\<forall>e. deadline_passed (timeout Q') e = deadline_passed (timeout Q) e)
          \<longrightarrow> await_loop E Q' start sleep w = Some y"
      and body: "(case info E Q w of
       (Inl e, w1) \<Rightarrow> Some (Inl e, w1)
     | (Inr state, w1) \<Rightarrow>
         if state \<in> {''UploadComplete'', ''InProgress''}
         then (if deadline_passed (timeout Q) (now w1 - start)
               then Some (Inl TimeoutError, w1)
               else f E Q start (min (sleep * 2) 60)
                      (w1\<lparr>now := now w1 + sleep, sleeps := sleeps w1 @ [sleep]\<rparr>))
         else if state \<noteq> ''JobComplete''
         then Some (Inl (RuntimeError (''unexpected job state: '' @ state)), w1)
         else Some (Inr (), w1)) = Some y"
    show "\<forall>Q' :: 'c SObjectQuery. query Q' = query Q \<and>
          (\<forall>e. deadline_passed (timeout Q') e = deadline_passed (timeout Q) e)
          \<longrightarrow> await_loop E Q' start sleep w = Some y"
    proof (intro allI impI)
      fix Q' :: "'c SObjectQuery"
      assume eq: "query Q' = query Q \<and>
          (\<forall>e. deadline_passed (timeout Q') e = deadline_passed (timeout Q) e)"
      then have i: "info E Q' w = info E Q w" by (simp add: info_def)
      obtain r w1 where r: "info E Q w = (r, w1)" by (cases "info E Q w")
      show "await_loop E Q' start sleep w = Some y"
      proof (cases r)
        case (Inl e)
        with body r i show ?thesis by (subst await_loop.simps) simp
      next
        case (Inr state)
        consider (wait) "state \<in> {''UploadComplete'', ''InProgress''}"
            "\<not> deadline_passed (timeout Q) (now w1 - start)"
          | (late) "state \<in> {''UploadComplete'', ''InProgress''}"
            "deadline_passed (timeout Q) (now w1 - start)"
          | (final) "state \<notin> {''UploadComplete'', ''InProgress''}"
          by blast
        then show ?thesis
        proof cases
          case wait
          with body r Inr have "f E Q start (min (sleep * 2) 60)
              (w1\<lparr>now := now w1 + sleep, sleeps := sleeps w1 @ [sleep]\<rparr>) = Some y"
            by simp
          from IH [OF this] eq have "await_loop E Q' start (min (sleep * 2) 60)
              (w1\<lparr>now := now w1 + sleep, sleeps := sleeps w1 @ [sleep]\<rparr>) = Some y"
            by blast
          with wait r Inr i eq show ?thesis by (subst await_loop.simps) simp
        next
          case late
          with body r Inr i eq show ?thesis by (subst await_loop.simps) simp
        next
          case final
          with body r Inr i eq show ?thesis by (subst await_loop.simps) simp
        qed
      qed
    qed
  qed
  with same show ?thesis by blast
qed

lemma await_loop_cong:
  fixes env :: "('c, 'r) job_env" and q q' :: "'c SObjectQuery"
  assumes "query q' = query q"
    and "\<forall>e. deadline_passed (timeout q') e = deadline_passed (timeout q) e"
  shows "await_loop env q' start sleep w = await_loop env q start sleep w"
proof (cases "await_loop env q start sleep w")
  case (Some y)
  with await_loop_same [OF Some assms] show ?thesis by simp
next
  case None
  show ?thesis
  proof (cases "await_loop env q' start sleep w")
    case (Some y)
    from assms have "query q = query q'"
      "\<forall>e. deadline_passed (timeout q) e = deadline_passed (timeout q') e" by simp_all
    from await_loop_same [OF Some this] None show ?thesis by simp
  next
    case None': None
    with None show ?thesis by simp
  qed
qed

lemma await_loop_forever:
  fixes env :: "('c, 'r) job_env" and q :: "'c SObjectQuery"
  assumes q: "query q = Some job" and nd: "\<forall>e. \<not> deadline_passed (timeout q) e"
    and inc: "\<forall>i. \<exists>s. info_reply env (polls w0 + i) = Inr s \<and> s \<in> incomplete"
  shows "await_loop env q start0 sleep0 w0 = None"
proof (cases "await_loop env q start0 sleep0 w0")
  case None
  then show ?thesis .
next
  case (Some y0)
  have "\<not> (query q \<noteq> None \<and> (\<forall>e. \<not> deadline_passed (timeout q) e) \<and>
      (\<forall>i. \<exists>s. info_reply env (polls w0 + i) = Inr s \<and> s \<in> incomplete))"
  proof (rule await_loop.raw_induct [where P = "\<lambda>(E :: ('c, 'r) job_env) (Q :: 'c SObjectQuery)
      start sleep w y. \<not> (query Q \<noteq> None \<and> (\<forall>e. \<not> deadline_passed (timeout Q) e) \<and>
      (\<forall>i. \<exists>s. info_reply E (polls w + i) = Inr s \<and> s \<in> incomplete))", OF _ Some])
  fix f :: "('c, 'r) job_env \<Rightarrow> 'c SObjectQuery \<Rightarrow> int \<Rightarrow> int \<Rightarrow> world
      \<Rightarrow> ((error + unit) \<times> world) option"
  fix E :: "('c, 'r) job_env" and Q :: "'c SObjectQuery" and start sleep w y
    assume IH: "\<And>E Q start sleep w y. f E Q start sleep w = Some y \<Longrightarrow>
        \<not> (query Q \<noteq> None \<and> (\<forall>e. \<not> deadline_passed (timeout Q) e) \<and>
          (\<forall>i. \<exists>s. info_reply E (polls w + i) = Inr s \<and> s \<in> incomplete))"
      and body: "(case info E Q w of
       (Inl e, w1) \<Rightarrow> Some (Inl e, w1)
     | (Inr state, w1) \<Rightarrow>
         if state \<in> {''UploadComplete'', ''InProgress''}
         then (if deadline_passed (timeout Q) (now w1 - start)
               then Some (Inl TimeoutError, w1)
               else f E Q start (min (sleep * 2) 60)
                      (w1\<lparr>now := now w1 + sleep, sleeps := sleeps w1 @ [sleep]\<rparr>))
         else if state \<noteq> ''JobComplete''
         then Some (Inl (RuntimeError (''unexpected job state: '' @ state)), w1)
         else Some (Inr (), w1)) = Some y"
    show "\<not> (query Q \<noteq> None \<and> (\<forall>e. \<not> deadline_passed (timeout Q) e) \<and>
          (\<forall>i. \<exists>s. info_reply E (polls w + i) = Inr s \<and> s \<in> incomplete))"
    proof
      assume a: "query Q \<noteq> None \<and> (\<forall>e. \<not> deadline_passed (timeout Q) e) \<and>
          (\<forall>i. \<exists>s. info_reply E (polls w + i) = Inr s \<and> s \<in> incomplete)"
      then obtain job where Q: "query Q = Some job" by auto
      from a have "\<exists>s. info_reply E (polls w + 0) = Inr s \<and> s \<in> incomplete" by blast
      then obtain s where s: "info_reply E (polls w) = Inr s" "s \<in> incomplete" by auto
      let ?w2 = "w\<lparr>polls := polls w + 1, now := now w + int (info_cost E (polls w)),
                   now := now w + int (info_cost E (polls w)) + sleep,
                   sleeps := sleeps w @ [sleep]\<rparr>"
      from body Q s a have run: "f E Q start (min (sleep * 2) 60) ?w2 = Some y"
        by (simp add: info_def incomplete_def)
      have "\<exists>s. info_reply E (polls ?w2 + i) = Inr s \<and> s \<in> incomplete" for i
      proof -
        from a have "\<exists>s. info_reply E (polls w + Suc i) = Inr s \<and> s \<in> incomplete" by blast
        then show ?thesis by simp
      qed
      with IH [OF run] a show False by blast
    qed
  qed
  with q nd inc show ?thesis by simp
qed

lemma await_loop_no_timeout:
  fixes env :: "('c, 'r) job_env" and q :: "'c SObjectQuery"
  assumes run: "await_loop env q start0 sleep0 w0 = Some y0"
    and nd: "\<forall>e. \<not> deadline_passed (timeout q) e"
    and ne: "\<forall>i. info_reply env i \<noteq> Inl TimeoutError"
  shows "fst y0 \<noteq> Inl TimeoutError"
proof -
  have "(\<forall>e. \<not> deadline_passed (timeout q) e) \<and> (\<forall>i. info_reply env i \<noteq> Inl TimeoutError)
      \<longrightarrow> fst y0 \<noteq> Inl TimeoutError"
  proof (rule await_loop.raw_induct [where P = "\<lambda>(E :: ('c, 'r) job_env) (Q :: 'c SObjectQuery)
      start sleep w y. (\<forall>e. \<not> deadline_passed (timeout Q) e) \<and>
        (\<forall>i. info_reply E i \<noteq> Inl TimeoutError) \<longrightarrow> fst y \<noteq> Inl TimeoutError", OF _ run])
  fix f :: "('c, 'r) job_env \<Rightarrow> 'c SObjectQuery \<Rightarrow> int \<Rightarrow> int \<Rightarrow> world
      \<Rightarrow> ((error + unit) \<times> world) option"
  fix E :: "('c, 'r) job_env" and Q :: "'c SObjectQuery" and start sleep w y
    assume IH: "\<And>E Q start sleep w y. f E Q start sleep w = Some y \<Longrightarrow>
        (\<forall>e. \<not> deadline_passed (timeout Q) e) \<and>
        (\<forall>i. info_reply E i \<noteq> Inl TimeoutError) \<longrightarrow> fst y \<noteq> Inl TimeoutError"
      and body: "(case info E Q w of
       (Inl e, w1) \<Rightarrow> Some (Inl e, w1)
     | (Inr state, w1) \<Rightarrow>
         if state \<in> {''UploadComplete'', ''InProgress''}
         then (if deadline_passed (timeout Q) (now w1 - start)
               then Some (Inl TimeoutError, w1)
               else f E Q start (min (sleep * 2) 60)
                      (w1\<lparr>now := now w1 + sleep, sleeps := sleeps w1 @ [sleep]\<rparr>))
         else if state \<noteq> ''JobComplete''
         then Some (Inl (RuntimeError (''unexpected job state: '' @ state)), w1)
         else Some (Inr (), w1)) = Some y"
    show "(\<forall>e. \<not> deadline_passed (timeout Q) e) \<and>
        (\<forall>i. info_reply E i \<noteq> Inl TimeoutError) \<longrightarrow> fst y \<noteq> Inl TimeoutError"
    proof
      assume a: "(\<forall>e. \<not> deadline_passed (timeout Q) e) \<and>
        (\<forall>i. info_reply E i \<noteq> Inl TimeoutError)"
      obtain r w1 where r: "info E Q w = (r, w1)" by (cases "info E Q w")
      show "fst y \<noteq> Inl TimeoutError"
      proof (cases r)
        case (Inl e)
        with r a have "e \<noteq> TimeoutError"
          by (auto simp: info_def split: option.splits)
        with body r Inl show ?thesis by auto
      next
        case (Inr state)
        show ?thesis
        proof (cases "state \<in> {''UploadComplete'', ''InProgress''}")
          case True
          with body r Inr a have "f E Q start (min (sleep * 2) 60)
              (w1\<lparr>now := now w1 + sleep, sleeps := sleeps w1 @ [sleep]\<rparr>) = Some y"
            by simp
          from IH [OF this] a show ?thesis by blast
        next
          case False
          with body r Inr show ?thesis by (auto split: if_splits)
        qed
      qed
    qed
  qed
  with nd ne show ?thesis by blast
qed

lemma entered_init:
  "(case init account (Some [''Id'', ''Name'']) None None None None tmo of
      Inl e \<Rightarrow> Inl e | Inr q \<Rightarrow> aenter (Inr ''750R0000000zlh9'') q) = Inr (entered tmo)"
  by (simp add: init_def Let_def indexed_of_def account_def employees_field_def
      exclude_types_def sobject_field_type_def type_mappings_def aenter_def entered_def)

lemma backoff_le: "backoff k \<le> 60"
proof (cases "k < 6")
  case True
  then have "k \<in> {0, 1, 2, 3, 4, 5}" by auto
  then show ?thesis by (auto simp: backoff_def)
next
  case False
  then show ?thesis by (simp add: backoff_def)
qed

lemma poll_time_job_of: "poll_time (job_of f) p k = (\<Sum>i<k. backoff i)"
  by (simp add: poll_time_def job_of_def)

lemma sum_backoff_le: "(\<Sum>i<k. backoff i) \<le> 60 * int k"
  using sum_bounded_above [of "{..<k}" backoff 60] by (simp add: backoff_le)

lemma sum_backoff_vals:
  "(\<Sum>i<0. backoff i) = 0" "(\<Sum>i<1. backoff i) = 1" "(\<Sum>i<2. backoff i) = 3"
  "(\<Sum>i<3. backoff i) = 7" "(\<Sum>i<4. backoff i) = 15" "(\<Sum>i<8. backoff i) = 183"
  by (simp_all add: eval_nat_numeral backoff_def)

lemma stuck_times:
  "poll_time stuck_job p 0 = 0" "poll_time stuck_job p (Suc 0) = 1"
  "poll_time stuck_job p 2 = 3" "poll_time stuck_job p 3 = 7" "poll_time stuck_job p 4 = 15"
  using sum_backoff_vals by (simp_all add: stuck_job_def poll_time_job_of)

text \<open>
  Witness for C5: eight polls see \<open>InProgress\<close>, the ninth \<open>JobComplete\<close>, under a
  deadline of 1000 that is not reached.
\<close>

theorem await_complete_backoff_witness:
  "query (entered (Some 1000)) = Some ''750R0000000zlh9'' \<and>
   info_reply slow_job 8 = Inr ''JobComplete'' \<and>
   (\<exists>w'. await_complete slow_job (entered (Some 1000)) world0 = Some (Inr (), w')
      \<and> polls w' = 9 \<and> sleeps w' = [1, 2, 4, 8, 16, 32, 60, 60] \<and> now w' = 183)"
proof -
  have q: "query (entered (Some 1000)) = Some ''750R0000000zlh9''"
    by (simp add: entered_def)
  have inc: "\<forall>i<8. \<exists>s. info_reply slow_job (polls world0 + i) = Inr s \<and> s \<in> incomplete"
    by (simp add: slow_job_def job_of_def world0_def incomplete_def)
  have dl: "\<forall>i<8. \<not> deadline_passed (timeout (entered (Some 1000)))
      (poll_time slow_job (polls world0) i)"
  proof (intro allI impI)
    fix i :: nat assume "i < 8"
    with sum_backoff_le [of i] have "(\<Sum>j<i. backoff j) < 1000" by simp
    then show "\<not> deadline_passed (timeout (entered (Some 1000)))
      (poll_time slow_job (polls world0) i)"
      by (simp add: deadline_passed_def entered_def slow_job_def poll_time_job_of)
  qed
  have fin: "info_reply slow_job (polls world0 + 8) = Inr ''JobComplete''"
    "''JobComplete'' \<notin> incomplete"
    by (simp_all add: slow_job_def job_of_def world0_def incomplete_def)
  from await_complete_backoff [OF q inc dl fin] obtain w' where
    run: "await_complete slow_job (entered (Some 1000)) world0 = Some (Inr (), w')"
    and w': "polls w' = polls world0 + 8 + 1" "sleeps w' = sleeps world0 @ map backoff [0..<8]"
      "now w' = now world0 + poll_time slow_job (polls world0) 8"
    by auto
  from w'(1) have "polls w' = 9" by (simp add: world0_def)
  moreover from w'(2) have "sleeps w' = [1, 2, 4, 8, 16, 32, 60, 60]"
    by (simp add: world0_def backoff_def upt_rec)
  moreover from w'(3) have "now w' = 183"
    by (simp add: world0_def slow_job_def poll_time_job_of sum_backoff_vals)
  ultimately show ?thesis using run q fin(1) by (simp add: world0_def)
qed

lemma costly_times:
  "poll_time costly_job p 0 = 3" "poll_time costly_job p (Suc 0) = 7"
  by (simp_all add: poll_time_def costly_job_def job_of_def backoff_def)

text \<open>
  C6, as stated, fails where the status polls take time. With polls of 3 units and a
  deadline of 5, the first poll ends at 3, the wait of 1 at 4, and the second poll at
  7, where \<open>TimeoutError\<close> is raised: 2 past the deadline, more than the one wait of
  1 that was made. With polls of 100 units and the same deadline, the first poll raises
  at 100 with no wait made: 95 past the deadline, more than 60, the longest wait there
  is.
\<close>

theorem await_complete_overshoot_slow_polls:
  "timeout (entered (Some 5)) = Some 5 \<and> info_cost costly_job 0 = 3 \<and>
   info_cost costly_job 1 = 3 \<and>
   await_complete costly_job (entered (Some 5)) world0 =
     Some (Inl TimeoutError,
           \<lparr> now = 7, polls = 2, sleeps = [1], fetches = [], deletes = 0 \<rparr>) \<and>
   \<not> (now \<lparr> now = 7, polls = 2, sleeps = [1], fetches = [], deletes = 0 \<rparr> - now world0
        < 5 + backoff 0) \<and>
   info_cost hung_job 0 = 100 \<and>
   await_complete hung_job (entered (Some 5)) world0 =
     Some (Inl TimeoutError,
           \<lparr> now = 100, polls = 1, sleeps = [], fetches = [], deletes = 0 \<rparr>) \<and>
   \<not> (now \<lparr> now = 100, polls = 1, sleeps = [], fetches = [], deletes = 0 \<rparr> - now world0
        < 5 + 60)"
proof -
  have "await_complete costly_job (entered (Some 5)) world0 =
      Some (Inl TimeoutError, polled costly_job world0 1)"
    by (rule await_complete_raises [where job = "''750R0000000zlh9''"])
       (simp_all add: entered_def costly_times deadline_passed_def,
        simp add: costly_job_def job_of_def incomplete_def)
  moreover have "polled costly_job world0 1 =
      \<lparr> now = 7, polls = 2, sleeps = [1], fetches = [], deletes = 0 \<rparr>"
    by (simp add: polled_def costly_times world0_def backoff_def)
  moreover have "info_cost costly_job 0 = 3" "info_cost costly_job 1 = 3"
    by (simp_all add: costly_job_def)
  moreover have "timeout (entered (Some 5)) = Some 5" by (simp add: entered_def)
  moreover have hung: "poll_time hung_job p 0 = 100" for p
    by (simp add: poll_time_def hung_job_def)
  have "await_complete hung_job (entered (Some 5)) world0 =
      Some (Inl TimeoutError, polled hung_job world0 0)"
    by (rule await_complete_raises [where job = "''750R0000000zlh9''"])
       (simp_all add: entered_def hung deadline_passed_def,
        simp add: hung_job_def job_of_def incomplete_def)
  moreover have "polled hung_job world0 0 =
      \<lparr> now = 100, polls = 1, sleeps = [], fetches = [], deletes = 0 \<rparr>"
    by (simp add: polled_def hung world0_def)
  moreover have "info_cost hung_job 0 = 100" by (simp add: hung_job_def)
  ultimately show ?thesis by (simp add: world0_def backoff_def)
qed

text \<open>
  Witness for C6: the job with polls of 3 units and deadline 5 raises at 7, within the
  deadline plus the wait of 1 plus the poll of 3. A job whose polls take no time, with
  deadline 10, is polled at 0, 1, 3, 7 and 15; the fifth poll raises, 5 past the
  deadline, after a wait of 8.
\<close>

theorem await_complete_deadline_witness:
  "timeout (entered (Some 5)) = Some 5 \<and> 5 \<le> poll_time costly_job (polls world0) 1 \<and>
   (\<exists>w'. await_complete costly_job (entered (Some 5)) world0 = Some (Inl TimeoutError, w')
      \<and> polls w' = 2 \<and> sleeps w' = [1] \<and> now w' = 7
      \<and> now w' - now world0 < 5 + backoff 0 + int (info_cost costly_job 1)) \<and>
   timeout (entered (Some 10)) = Some 10 \<and> 10 \<le> poll_time stuck_job (polls world0) 4 \<and>
   (\<exists>w'. await_complete stuck_job (entered (Some 10)) world0 = Some (Inl TimeoutError, w')
      \<and> polls w' = 5 \<and> sleeps w' = [1, 2, 4, 8] \<and> now w' = 15
      \<and> now w' - now world0 < 10 + backoff 3)"
proof -
  have q: "query (entered (Some 10)) = Some ''750R0000000zlh9''"
    and t: "timeout (entered (Some 10)) = Some 10" "(10::int) \<noteq> 0"
    by (simp_all add: entered_def)
  have inc: "\<forall>i\<le>4. \<exists>s. info_reply stuck_job (polls world0 + i) = Inr s \<and> s \<in> incomplete"
    by (simp add: stuck_job_def job_of_def incomplete_def)
  have late: "10 \<le> poll_time stuck_job (polls world0) 4"
    by (simp add: stuck_times)
  from await_complete_deadline [OF q t inc late] obtain w' m where m: "m \<le> 4"
    and run: "await_complete stuck_job (entered (Some 10)) world0 = Some (Inl TimeoutError, w')"
    and w': "polls w' = polls world0 + m + 1" "sleeps w' = sleeps world0 @ map backoff [0..<m]"
      "now w' - now world0 = poll_time stuck_job (polls world0) m"
    and reached: "10 \<le> now w' - now world0"
    and inst: "(0::int) < 10 \<and> info_cost stuck_job (polls world0 + m) = 0 \<longrightarrow>
      0 < m \<and> now w' - now world0 < 10 + backoff (m - 1)"
    by blast
  have ne: "m \<noteq> j" if "poll_time stuck_job (polls world0) j < 10" for j
    using that reached w'(3) by auto
  from ne [of 0] ne [of 1] ne [of 2] ne [of 3] have "m \<noteq> 0" "m \<noteq> 1" "m \<noteq> 2" "m \<noteq> 3"
    by (simp_all add: stuck_times)
  with m have m4: "m = 4" by simp
  with w' have "polls w' = 5" "sleeps w' = [1, 2, 4, 8]" "now w' = 15"
    by (simp_all add: world0_def stuck_times backoff_def upt_rec)
  moreover from inst m4 have "now w' - now world0 < 10 + backoff 3"
    by (simp add: stuck_job_def job_of_def)
  ultimately have zero: "\<exists>w'. await_complete stuck_job (entered (Some 10)) world0
        = Some (Inl TimeoutError, w')
      \<and> polls w' = 5 \<and> sleeps w' = [1, 2, 4, 8] \<and> now w' = 15
      \<and> now w' - now world0 < 10 + backoff 3"
    using run by blast
  have q5: "query (entered (Some 5)) = Some ''750R0000000zlh9''"
    and t5: "timeout (entered (Some 5)) = Some 5" "(5::int) \<noteq> 0"
    by (simp_all add: entered_def)
  have inc5: "\<forall>i\<le>1. \<exists>s. info_reply costly_job (polls world0 + i) = Inr s \<and> s \<in> incomplete"
    by (simp add: costly_job_def job_of_def incomplete_def)
  have late5: "5 \<le> poll_time costly_job (polls world0) 1"
    by (simp add: costly_times)
  from await_complete_deadline [OF q5 t5 inc5 late5] obtain v n where n: "n \<le> 1"
    and run5: "await_complete costly_job (entered (Some 5)) world0 = Some (Inl TimeoutError, v)"
    and v: "polls v = polls world0 + n + 1" "sleeps v = sleeps world0 @ map backoff [0..<n]"
      "now v - now world0 = poll_time costly_job (polls world0) n"
    and reached5: "5 \<le> now v - now world0"
    and bound5: "(0::int) < 5 \<longrightarrow> now v - now world0
        < 5 + (if n = 0 then 0 else backoff (n - 1)) + int (info_cost costly_job (polls world0 + n))"
    by blast
  have "n \<noteq> 0"
  proof
    assume "n = 0"
    with reached5 v(3) show False by (simp add: costly_times)
  qed
  with n have n1: "n = 1" by simp
  with v have "polls v = 2" "sleeps v = [1]" "now v = 7"
    by (simp_all add: world0_def costly_times backoff_def)
  moreover from bound5 n1
  have "now v - now world0 < 5 + backoff 0 + int (info_cost costly_job 1)"
    by (simp add: world0_def)
  ultimately have slow: "\<exists>w'. await_complete costly_job (entered (Some 5)) world0
        = Some (Inl TimeoutError, w')
      \<and> polls w' = 2 \<and> sleeps w' = [1] \<and> now w' = 7
      \<and> now w' - now world0 < 5 + backoff 0 + int (info_cost costly_job 1)"
    using run5 by blast
  from t(1) late zero t5(1) late5 slow show ?thesis by blast
qed

lemma init_timeout:
  "init sobject fs whr order_by limit pgsize tmo = Inr q \<Longrightarrow> timeout q = tmo"
  by (auto simp: init_def Let_def split: if_splits option.splits sum.splits)

lemma no_deadline: "\<not> deadline_passed None e" "\<not> deadline_passed (Some 0) e"
  by (simp_all add: deadline_passed_def)

text \<open>
  C9: \<open>__init__\<close> stores a timeout of 0 as it is, and with it \<open>_await_complete\<close>
  behaves on every job and in every world exactly as with no timeout. Unless a poll
  itself raises it, \<open>TimeoutError\<close> is never raised; while the job stays incomplete
  the wait never returns; and it returns at the first poll that observes another
  state, however late.
\<close>

theorem timeout_zero_no_deadline:
  fixes env :: "('c, 'r) job_env" and q :: "'c SObjectQuery"
  shows
    "(\<forall>(q0 :: 'c SObjectQuery). init sobject fs whr order_by limit pgsize (Some 0) = Inr q0
        \<longrightarrow> timeout q0 = Some 0)
     \<and> await_complete env (q\<lparr>timeout := Some 0\<rparr>) w
         = await_complete env (q\<lparr>timeout := None\<rparr>) w
     \<and> ((\<forall>i. info_reply env i \<noteq> Inl TimeoutError) \<longrightarrow>
          (\<forall>w'. await_complete env (q\<lparr>timeout := Some 0\<rparr>) w \<noteq> Some (Inl TimeoutError, w')))
     \<and> (query q \<noteq> None \<and>
        (\<forall>i. \<exists>s. info_reply env (polls w + i) = Inr s \<and> s \<in> incomplete) \<longrightarrow>
          await_complete env (q\<lparr>timeout := Some 0\<rparr>) w = None)
     \<and> (query q \<noteq> None \<and>
        (\<forall>i<n. \<exists>s. info_reply env (polls w + i) = Inr s \<and> s \<in> incomplete) \<and>
        info_reply env (polls w + n) = Inr s \<and> s \<notin> incomplete \<longrightarrow>
          (\<exists>w'. await_complete env (q\<lparr>timeout := Some 0\<rparr>) w =
                  Some (if s = ''JobComplete'' then Inr ()
                        else Inl (RuntimeError (''unexpected job state: '' @ s)), w')
             \<and> polls w' = polls w + n + 1
             \<and> now w' = now w + poll_time env (polls w) n))"
proof (intro conjI allI impI)
  fix q0 :: "'c SObjectQuery"
  assume "init sobject fs whr order_by limit pgsize (Some 0) = Inr q0"
  then show "timeout q0 = Some 0" by (rule init_timeout)
next
  show "await_complete env (q\<lparr>timeout := Some 0\<rparr>) w
      = await_complete env (q\<lparr>timeout := None\<rparr>) w"
    unfolding await_complete_def
    by (rule await_loop_cong) (simp_all add: no_deadline)
next
  fix w'
  assume ne: "\<forall>i. info_reply env i \<noteq> Inl TimeoutError"
  show "await_complete env (q\<lparr>timeout := Some 0\<rparr>) w \<noteq> Some (Inl TimeoutError, w')"
  proof
    assume "await_complete env (q\<lparr>timeout := Some 0\<rparr>) w = Some (Inl TimeoutError, w')"
    then have "await_loop env (q\<lparr>timeout := Some 0\<rparr>) (now w) 1 w
        = Some (Inl TimeoutError, w')"
      by (simp add: await_complete_def)
    from await_loop_no_timeout [OF this _ ne] show False by (simp add: no_deadline)
  qed
next
  assume a: "query q \<noteq> None \<and>
    (\<forall>i. \<exists>s. info_reply env (polls w + i) = Inr s \<and> s \<in> incomplete)"
  then obtain job where q: "query (q\<lparr>timeout := Some 0\<rparr>) = Some job" by auto
  from a show "await_complete env (q\<lparr>timeout := Some 0\<rparr>) w = None"
    unfolding await_complete_def
    by (intro await_loop_forever [OF q]) (simp_all add: no_deadline)
next
  assume a: "query q \<noteq> None \<and>
        (\<forall>i<n. \<exists>s. info_reply env (polls w + i) = Inr s \<and> s \<in> incomplete) \<and>
        info_reply env (polls w + n) = Inr s \<and> s \<notin> incomplete"
  then obtain job where q: "query (q\<lparr>timeout := Some 0\<rparr>) = Some job" by auto
  have "await_complete env (q\<lparr>timeout := Some 0\<rparr>) w =
      await_loop env (q\<lparr>timeout := Some 0\<rparr>) (now w) (backoff n) (waited env w n)"
    using a by (intro await_complete_waits [OF q]) (simp_all add: no_deadline)
  also have "\<dots> = Some (verdict s, polled env w n)"
    using a
    by (subst await_loop_done [OF q, where s = s])
       (simp_all add: waited_def polled_def poll_time_def)
  finally show "\<exists>w'. await_complete env (q\<lparr>timeout := Some 0\<rparr>) w =
                  Some (if s = ''JobComplete'' then Inr ()
                        else Inl (RuntimeError (''unexpected job state: '' @ s)), w')
             \<and> polls w' = polls w + n + 1
             \<and> now w' = now w + poll_time env (polls w) n"
    by (simp add: verdict_def polled_def)
qed

text \<open>
  Witness for C9: with timeout 0 the wait on the job that stays \<open>InProgress\<close> never
  returns, and the wait on the job that completes at its ninth poll returns at time
  183.
\<close>

theorem timeout_zero_no_deadline_witness:
  "timeout (entered (Some 0)) = Some 0 \<and>
   await_complete stuck_job (entered (Some 0)) world0 = None \<and>
   (\<exists>w'. await_complete slow_job (entered (Some 0)) world0 = Some (Inr (), w')
      \<and> polls w' = 9 \<and> now w' = 183)"
proof -
  have e: "(entered (Some 1))\<lparr>timeout := Some 0\<rparr> = entered (Some 0)"
    by (simp add: entered_def)
  have q: "query (entered (Some 1)) \<noteq> None" by (simp add: entered_def)
  have stuck: "\<forall>i. \<exists>s. info_reply stuck_job (polls world0 + i) = Inr s \<and> s \<in> incomplete"
    by (simp add: stuck_job_def job_of_def incomplete_def)
  have slow: "\<forall>i<8. \<exists>s. info_reply slow_job (polls world0 + i) = Inr s \<and> s \<in> incomplete"
    "info_reply slow_job (polls world0 + 8) = Inr ''JobComplete''"
    "''JobComplete'' \<notin> incomplete"
    by (simp_all add: slow_job_def job_of_def world0_def incomplete_def)
  from timeout_zero_no_deadline [of account "Some [''Id'']" None None None None stuck_job
      "entered (Some 1)" world0 0 "''Failed''"] q stuck
  have 1: "await_complete stuck_job (entered (Some 0)) world0 = None"
    unfolding e by blast
  from timeout_zero_no_deadline [of account "Some [''Id'']" None None None None slow_job
      "entered (Some 1)" world0 8 "''JobComplete''", THEN conjunct2, THEN conjunct2,
      THEN conjunct2, THEN conjunct2] q slow
  have "\<exists>w'. await_complete slow_job (entered (Some 0)) world0 = Some (Inr (), w')
      \<and> polls w' = polls world0 + 8 + 1 \<and> now w' = now world0 + poll_time slow_job (polls world0) 8"
    unfolding e by simp
  then have 2: "\<exists>w'. await_complete slow_job (entered (Some 0)) world0 = Some (Inr (), w')
      \<and> polls w' = 9 \<and> now w' = 183"
    by (simp add: world0_def slow_job_def poll_time_job_of sum_backoff_vals)
  from 1 2 show ?thesis by (simp add: entered_def)
qed

section \<open>The authenticated request\<close>

lemma request_loop_sent:
  "length (sent (snd (request_loop env a h rs c))) \<le> length (sent c) + length rs"
proof (induction rs arbitrary: c h)
  case Nil
  then show ?case by simp
next
  case (Cons retry rs)
  show ?case
    by (auto simp: Let_def split: sum.splits option.splits intro!: order_trans [OF Cons.IH])
qed

lemma classify_401: "status r = 401 \<Longrightarrow> classify r = Inl (StatusError 401 (body_text r))"
  by (simp add: classify_def)

lemma classify_200: "status r = 200 \<Longrightarrow> classify r = Inr r"
  by (simp add: classify_def)

lemma unauthorized_classify: "is_unauthorized e \<Longrightarrow> classify r = Inl e \<Longrightarrow> status r = 401"
  by (auto simp: classify_def split: if_splits)

lemma dict_set_twice: "dict_set (dict_set d k v) k v' = dict_set d k v'"
  by (induction d k v rule: dict_set.induct) auto

lemma map_of_dict_set: "map_of (dict_set d k v) k' = (if k' = k then Some v else map_of d k')"
  by (induction d k v rule: dict_set.induct) auto

lemma request_held_401:
  assumes "token c = Some t0" "http_reply env (length (sent c)) = Inr r1" "status r1 = 401"
    "authenticate env (auth_calls c) = Inr t2"
    "http_reply env (length (sent c) + 1) = Inr r2"
  shows "auth_calls (snd (request env a c)) = auth_calls c + 1"
    "sent (snd (request env a c)) = sent c @
       [\<lparr> req_method = arg_method a, req_url = instance_url t0 @ arg_path a,
          req_headers = dict_set
            (dict_or [(''Accept'', ''application/json''), (''Accept-Encoding'', ''gzip'')]
               (case arg_headers a of None \<Rightarrow> [] | Some h \<Rightarrow> h))
            ''Authorization'' (''Bearer '' @ access_token t0),
          req_params = arg_params a, req_json = arg_json a \<rparr>,
        \<lparr> req_method = arg_method a, req_url = instance_url t2 @ arg_path a,
          req_headers = dict_set
            (dict_or [(''Accept'', ''application/json''), (''Accept-Encoding'', ''gzip'')]
               (case arg_headers a of None \<Rightarrow> [] | Some h \<Rightarrow> h))
            ''Authorization'' (''Bearer '' @ access_token t2),
          req_params = arg_params a, req_json = arg_json a \<rparr>]"
    "token (snd (request env a c)) = Some t2"
    "fst (request env a c) = classify r2"
  using assms
  by (auto simp: request_def Let_def classify_401 dict_set_twice split: sum.splits
      dest: unauthorized_classify)

lemma request_held_401_auth_fails:
  assumes "token c = Some t0" "http_reply env (length (sent c)) = Inr r1" "status r1 = 401"
    "authenticate env (auth_calls c) = Inl e"
  shows "fst (request env a c) = Inl e" "token (snd (request env a c)) = None"
    "auth_calls (snd (request env a c)) = auth_calls c + 1"
    "sent (snd (request env a c)) = sent c @
       [\<lparr> req_method = arg_method a, req_url = instance_url t0 @ arg_path a,
          req_headers = dict_set
            (dict_or [(''Accept'', ''application/json''), (''Accept-Encoding'', ''gzip'')]
               (case arg_headers a of None \<Rightarrow> [] | Some h \<Rightarrow> h))
            ''Authorization'' (''Bearer '' @ access_token t0),
          req_params = arg_params a, req_json = arg_json a \<rparr>]"
  using assms
  by (auto simp: request_def Let_def classify_401 split: sum.splits)

lemma request_fresh_401:
  assumes "token c = None" "authenticate env (auth_calls c) = Inr t1"
    "http_reply env (length (sent c)) = Inr r1" "status r1 = 401"
    "authenticate env (auth_calls c + 1) = Inr t2"
    "http_reply env (length (sent c) + 1) = Inr r2"
  shows "auth_calls (snd (request env a c)) = auth_calls c + 2"
    "sent (snd (request env a c)) = sent c @
       [\<lparr> req_method = arg_method a, req_url = instance_url t1 @ arg_path a,
          req_headers = dict_set
            (dict_or [(''Accept'', ''application/json''), (''Accept-Encoding'', ''gzip'')]
               (case arg_headers a of None \<Rightarrow> [] | Some h \<Rightarrow> h))
            ''Authorization'' (''Bearer '' @ access_token t1),
          req_params = arg_params a, req_json = arg_json a \<rparr>,
        \<lparr> req_method = arg_method a, req_url = instance_url t2 @ arg_path a,
          req_headers = dict_set
            (dict_or [(''Accept'', ''application/json''), (''Accept-Encoding'', ''gzip'')]
               (case arg_headers a of None \<Rightarrow> [] | Some h \<Rightarrow> h))
            ''Authorization'' (''Bearer '' @ access_token t2),
          req_params = arg_params a, req_json = arg_json a \<rparr>]"
    "token (snd (request env a c)) = Some t2"
    "fst (request env a c) = classify r2"
  using assms
  by (auto simp: request_def Let_def classify_401 dict_set_twice split: sum.splits
      dest: unauthorized_classify)


text \<open>
  C2: one call of \<open>request\<close> hands at most two requests to the session. Each request
  carries the caller's method, path, parameters and body, and the headers with
  \<open>Authorization: Bearer\<close> of the credential it was built with. When the first
  answer is 401, the credential is dropped and \<open>authenticate\<close> is invoked once more;
  if it returns a credential, exactly one more request is sent, the same request with
  the new credential in place of the old one, and its outcome is final: a second 401 is
  raised as it is. If \<open>authenticate\<close> fails there, its error is raised and nothing is
  resent. A client that starts with no credential and gets 401, then 200, has invoked
  \<open>authenticate\<close> exactly twice and succeeds.
\<close>

theorem request_two_attempts:
  fixes env :: net and a :: request_args and c :: Client
  defines "out \<equiv> request env a c"
  defines "n \<equiv> length (sent c)" and "k \<equiv> auth_calls c"
  defines "req \<equiv> (\<lambda>t.
        \<lparr> req_method = arg_method a, req_url = instance_url t @ arg_path a,
          req_headers = dict_set
            (dict_or [(''Accept'', ''application/json''), (''Accept-Encoding'', ''gzip'')]
               (case arg_headers a of None \<Rightarrow> [] | Some h \<Rightarrow> h))
            ''Authorization'' (''Bearer '' @ access_token t),
          req_params = arg_params a, req_json = arg_json a \<rparr>)"
  shows
    "length (sent (snd out)) \<le> n + 2
     \<and> (\<forall>t. map_of (req_headers (req t)) ''Authorization''
              = Some (''Bearer '' @ access_token t))
     \<and> (token c = Some t0 \<and> http_reply env n = Inr r1 \<and> status r1 = 401 \<and>
        authenticate env k = Inr t2 \<and> http_reply env (n + 1) = Inr r2 \<longrightarrow>
          auth_calls (snd out) = k + 1 \<and> length (sent (snd out)) = n + 2 \<and>
          sent (snd out) = sent c @ [req t0, req t2] \<and>
          req_url (sent (snd out) ! (n + 1)) = instance_url t2 @ arg_path a \<and>
          token (snd out) = Some t2 \<and> fst out = classify r2 \<and>
          (status r2 = 401 \<longrightarrow> fst out = Inl (StatusError 401 (body_text r2))) \<and>
          (status r2 = 200 \<longrightarrow> fst out = Inr r2))
     \<and> (token c = Some t0 \<and> http_reply env n = Inr r1 \<and> status r1 = 401 \<and>
        authenticate env k = Inl e \<longrightarrow>
          fst out = Inl e \<and> token (snd out) = None \<and> auth_calls (snd out) = k + 1 \<and>
          length (sent (snd out)) = n + 1 \<and> sent (snd out) = sent c @ [req t0])
     \<and> (token c = None \<and> authenticate env k = Inr t1 \<and> http_reply env n = Inr r1 \<and>
        status r1 = 401 \<and> authenticate env (k + 1) = Inr t2 \<and>
        http_reply env (n + 1) = Inr r2 \<longrightarrow>
          auth_calls (snd out) = k + 2 \<and> length (sent (snd out)) = n + 2 \<and>
          sent (snd out) = sent c @ [req t1, req t2] \<and>
          req_url (sent (snd out) ! (n + 1)) = instance_url t2 @ arg_path a \<and>
          token (snd out) = Some t2 \<and> fst out = classify r2 \<and>
          (status r2 = 401 \<longrightarrow> fst out = Inl (StatusError 401 (body_text r2))) \<and>
          (status r2 = 200 \<longrightarrow> fst out = Inr r2))"
proof (intro conjI impI allI)
  show "length (sent (snd out)) \<le> n + 2"
    using request_loop_sent [of env a _ "[0, 1]" c] by (simp add: out_def n_def request_def)
next
  fix t
  show "map_of (req_headers (req t)) ''Authorization'' = Some (''Bearer '' @ access_token t)"
    by (simp add: req_def map_of_dict_set)
next
  assume h: "token c = Some t0 \<and> http_reply env n = Inr r1 \<and> status r1 = 401 \<and>
        authenticate env k = Inr t2 \<and> http_reply env (n + 1) = Inr r2"
  then have *: "token c = Some t0" "http_reply env (length (sent c)) = Inr r1"
    "status r1 = 401" "authenticate env (auth_calls c) = Inr t2"
    "http_reply env (length (sent c) + 1) = Inr r2"
    by (simp_all add: n_def k_def)
  note r = request_held_401 [OF *, of a]
  show s: "sent (snd out) = sent c @ [req t0, req t2]"
    using r(2) by (simp add: out_def req_def)
  show "auth_calls (snd out) = k + 1" "token (snd out) = Some t2" "fst out = classify r2"
    using r by (simp_all add: out_def k_def)
  show "length (sent (snd out)) = n + 2"
    unfolding s by (simp add: n_def)
  show "req_url (sent (snd out) ! (n + 1)) = instance_url t2 @ arg_path a"
    unfolding s by (simp add: n_def nth_append req_def)
  show "fst out = Inl (StatusError 401 (body_text r2))" if "status r2 = 401"
    using r(4) that by (simp add: out_def classify_401)
  show "fst out = Inr r2" if "status r2 = 200"
    using r(4) that by (simp add: out_def classify_200)
next
  assume h: "token c = Some t0 \<and> http_reply env n = Inr r1 \<and> status r1 = 401 \<and>
        authenticate env k = Inl e"
  then have *: "token c = Some t0" "http_reply env (length (sent c)) = Inr r1"
    "status r1 = 401" "authenticate env (auth_calls c) = Inl e"
    by (simp_all add: n_def k_def)
  note r = request_held_401_auth_fails [OF *, of a]
  show s: "sent (snd out) = sent c @ [req t0]"
    using r(4) by (simp add: out_def req_def)
  show "fst out = Inl e" "token (snd out) = None" "auth_calls (snd out) = k + 1"
    using r by (simp_all add: out_def k_def)
  show "length (sent (snd out)) = n + 1"
    unfolding s by (simp add: n_def)
next
  assume h: "token c = None \<and> authenticate env k = Inr t1 \<and> http_reply env n = Inr r1 \<and>
        status r1 = 401 \<and> authenticate env (k + 1) = Inr t2 \<and>
        http_reply env (n + 1) = Inr r2"
  then have *: "token c = None" "authenticate env (auth_calls c) = Inr t1"
    "http_reply env (length (sent c)) = Inr r1" "status r1 = 401"
    "authenticate env (auth_calls c + 1) = Inr t2"
    "http_reply env (length (sent c) + 1) = Inr r2"
    by (simp_all add: n_def k_def)
  note r = request_fresh_401 [OF *, of a]
  show s: "sent (snd out) = sent c @ [req t1, req t2]"
    using r(2) by (simp add: out_def req_def)
  show "auth_calls (snd out) = k + 2" "token (snd out) = Some t2" "fst out = classify r2"
    using r by (simp_all add: out_def k_def)
  show "length (sent (snd out)) = n + 2"
    unfolding s by (simp add: n_def)
  show "req_url (sent (snd out) ! (n + 1)) = instance_url t2 @ arg_path a"
    unfolding s by (simp add: n_def nth_append req_def)
  show "fst out = Inl (StatusError 401 (body_text r2))" if "status r2 = 401"
    using r(4) that by (simp add: out_def classify_401)
  show "fst out = Inr r2" if "status r2 = 200"
    using r(4) that by (simp add: out_def classify_200)
qed

text \<open>
  Witness for C2: from no credential, 401 then 200 succeeds after two invocations of
  \<open>authenticate\<close> and two requests, the second the first with the new credential;
  401 twice raises the second 401 after two requests; a failing \<open>authenticate\<close>
  after the first 401 raises after one request.
\<close>

theorem request_two_attempts_witness:
  "token client0 = None \<and> status resp_401 = 401 \<and> status resp_200 = 200 \<and>
   fst (request net_refresh get_job client0) = Inr resp_200 \<and>
   auth_calls (snd (request net_refresh get_job client0)) = 2 \<and>
   sent (snd (request net_refresh get_job client0)) =
     [\<lparr> req_method = ''GET'',
        req_url = ''https://na1.example.com/services/data/v54.0/jobs/query/750'',
        req_headers = [(''Accept'', ''application/json''), (''Accept-Encoding'', ''gzip''),
                       (''Authorization'', ''Bearer 00Dxx!AQEA'')],
        req_params = [], req_json = None \<rparr>,
      \<lparr> req_method = ''GET'',
        req_url = ''https://na1.example.com/services/data/v54.0/jobs/query/750'',
        req_headers = [(''Accept'', ''application/json''), (''Accept-Encoding'', ''gzip''),
                       (''Authorization'', ''Bearer 00Dxx!AQEB'')],
        req_params = [], req_json = None \<rparr>] \<and>
   fst (request net_denied get_job client0)
     = Inl (StatusError 401 ''Session expired or invalid'') \<and>
   length (sent (snd (request net_denied get_job client0))) = 2 \<and>
   fst (request net_no_auth get_job (client0\<lparr>token := Some token_a\<rparr>))
     = Inl (OtherError ''invalid_grant'') \<and>
   length (sent (snd (request net_no_auth get_job (client0\<lparr>token := Some token_a\<rparr>)))) = 1"
proof -
  have c: "token client0 = None" "length (sent client0) = 0" "auth_calls client0 = 0"
    "sent client0 = []"
    "token (client0\<lparr>token := Some token_a\<rparr>) = Some token_a"
    "length (sent (client0\<lparr>token := Some token_a\<rparr>)) = 0"
    "auth_calls (client0\<lparr>token := Some token_a\<rparr>) = 0"
    by (simp_all add: client0_def)
  have s: "status resp_401 = 401" "status resp_200 = 200"
    "body_text resp_401 = ''Session expired or invalid''"
    by (simp_all add: resp_401_def resp_200_def)
  have e1: "authenticate net_refresh 0 = Inr token_a" "authenticate net_refresh (0 + 1) = Inr token_b"
    "http_reply net_refresh 0 = Inr resp_401" "http_reply net_refresh (0 + 1) = Inr resp_200"
    by (simp_all add: net_refresh_def)
  have e2: "authenticate net_denied 0 = Inr token_b" "authenticate net_denied (0 + 1) = Inr token_b"
    "http_reply net_denied 0 = Inr resp_401" "http_reply net_denied (0 + 1) = Inr resp_401"
    by (simp_all add: net_denied_def)
  have e3: "authenticate net_no_auth 0 = Inl (OtherError ''invalid_grant'')"
    "http_reply net_no_auth 0 = Inr resp_401"
    by (simp_all add: net_no_auth_def)
  from request_two_attempts [of net_refresh get_job client0 token_a resp_401 token_b resp_200
      "OtherError []" token_a] c s e1
  have 1: "fst (request net_refresh get_job client0) = Inr resp_200"
    "auth_calls (snd (request net_refresh get_job client0)) = 2"
    "sent (snd (request net_refresh get_job client0)) =
     [\<lparr> req_method = ''GET'',
        req_url = ''https://na1.example.com/services/data/v54.0/jobs/query/750'',
        req_headers = [(''Accept'', ''application/json''), (''Accept-Encoding'', ''gzip''),
                       (''Authorization'', ''Bearer 00Dxx!AQEA'')],
        req_params = [], req_json = None \<rparr>,
      \<lparr> req_method = ''GET'',
        req_url = ''https://na1.example.com/services/data/v54.0/jobs/query/750'',
        req_headers = [(''Accept'', ''application/json''), (''Accept-Encoding'', ''gzip''),
                       (''Authorization'', ''Bearer 00Dxx!AQEB'')],
        req_params = [], req_json = None \<rparr>]"
    by (simp_all add: classify_200 classify_401 get_job_def token_a_def token_b_def
        dict_or_def)
  from request_two_attempts [of net_denied get_job client0 token_a resp_401 token_b resp_401
      "OtherError []" token_b] c s e2
  have 2: "fst (request net_denied get_job client0)
      = Inl (StatusError 401 ''Session expired or invalid'')"
    "length (sent (snd (request net_denied get_job client0))) = 2"
    by (simp_all add: classify_200 classify_401)
  from request_two_attempts [of net_no_auth get_job "client0\<lparr>token := Some token_a\<rparr>"
      token_a resp_401 token_b resp_401 "OtherError ''invalid_grant''" token_b] c s e3
  have 3: "fst (request net_no_auth get_job (client0\<lparr>token := Some token_a\<rparr>))
      = Inl (OtherError ''invalid_grant'')"
    "length (sent (snd (request net_no_auth get_job (client0\<lparr>token := Some token_a\<rparr>)))) = 1"
    by (simp_all add: classify_200 classify_401)
  from c(1) s(1,2) 1 2 3 show ?thesis by simp
qed

section \<open>The cursor of a result page\<close>

text \<open>
  C4 holds for a response that carries the header: \<open>null\<close> gives no cursor, any
  other value is the cursor. For a response without the header the claim wants no
  cursor, and \<open>results\<close> raises \<open>AttributeError\<close> instead.
\<close>

theorem results_page_absent_locator:
  "results_page csv_reader \<lparr> status = 200, body_text = b, headers = [] \<rparr>
     = Inl AttributeError
   \<and> results_page csv_reader
       \<lparr> status = 200, body_text = b, headers = [(''Content-Type'', ''text/csv'')] \<rparr>
     = Inl AttributeError
   \<and> results_page csv_reader
       \<lparr> status = 200, body_text = b, headers = [(''Sforce-Locator'', ''null'')] \<rparr>
     = Inr \<lparr> items = csv_reader b, page_cursor = None \<rparr>
   \<and> results_page csv_reader
       \<lparr> status = 200, body_text = b, headers = [(''Sforce-Locator'', ''MTAwMDA'')] \<rparr>
     = Inr \<lparr> items = csv_reader b, page_cursor = Some ''MTAwMDA'' \<rparr>"
  by (simp add: results_page_def)

section \<open>Teardown\<close>

lemma await_loop_trace:
  fixes env :: "('c, 'r) job_env" and q :: "'c SObjectQuery"
  assumes run: "await_loop env q start0 sleep0 w = Some y0"
  shows "deletes (snd y0) = deletes w \<and> fetches (snd y0) = fetches w"
proof (rule await_loop.raw_induct [where P = "\<lambda>(E :: ('c, 'r) job_env) (Q :: 'c SObjectQuery)
      start sleep w y. deletes (snd y) = deletes w \<and> fetches (snd y) = fetches w", OF _ run])
  fix f :: "('c, 'r) job_env \<Rightarrow> 'c SObjectQuery \<Rightarrow> int \<Rightarrow> int \<Rightarrow> world
      \<Rightarrow> ((error + unit) \<times> world) option"
  fix E :: "('c, 'r) job_env" and Q :: "'c SObjectQuery" and start sleep w y
  assume IH: "\<And>E Q start sleep w y. f E Q start sleep w = Some y \<Longrightarrow>
        deletes (snd y) = deletes w \<and> fetches (snd y) = fetches w"
    and body: "(case info E Q w of
       (Inl e, w1) \<Rightarrow> Some (Inl e, w1)
     | (Inr state, w1) \<Rightarrow>
         if state \<in> {''UploadComplete'', ''InProgress''}
         then (if deadline_passed (timeout Q) (now w1 - start)
               then Some (Inl TimeoutError, w1)
               else f E Q start (min (sleep * 2) 60)
                      (w1\<lparr>now := now w1 + sleep, sleeps := sleeps w1 @ [sleep]\<rparr>))
         else if state \<noteq> ''JobComplete''
         then Some (Inl (RuntimeError (''unexpected job state: '' @ state)), w1)
         else Some (Inr (), w1)) = Some y"
  obtain r w1 where r: "info E Q w = (r, w1)" by (cases "info E Q w")
  then have w1: "deletes w1 = deletes w" "fetches w1 = fetches w"
    by (auto simp: info_def split: option.splits)
  show "deletes (snd y) = deletes w \<and> fetches (snd y) = fetches w"
  proof (cases r)
    case (Inl e)
    with body r w1 show ?thesis by auto
  next
    case (Inr state)
    show ?thesis
    proof (cases "state \<in> {''UploadComplete'', ''InProgress''}
        \<and> \<not> deadline_passed (timeout Q) (now w1 - start)")
      case True
      with body r Inr have "f E Q start (min (sleep * 2) 60)
          (w1\<lparr>now := now w1 + sleep, sleeps := sleeps w1 @ [sleep]\<rparr>) = Some y"
        by simp
      from IH [OF this] w1 show ?thesis by simp
    next
      case False
      with body r Inr w1 show ?thesis by (auto split: if_splits)
    qed
  qed
qed

text \<open>
  C1, as stated, fails: for a job in state \<open>Failed\<close> whose results were never begun,
  the wait inside \<open>__aexit__\<close> raises \<open>RuntimeError\<close>, which
  \<open>suppress(TimeoutError)\<close> lets through; \<open>__aexit__\<close> raises it and makes no delete
  call.
\<close>

theorem aexit_failed_job_raises:
  "results (entered None) = None \<and>
   aexit failed_job (entered None) world0 =
     Some (Inl (RuntimeError ''unexpected job state: Failed''),
           \<lparr> now = 0, polls = 1, sleeps = [], fetches = [], deletes = 0 \<rparr>)"
proof -
  have "await_complete failed_job (entered None) world0 =
      Some (verdict ''Failed'',
        \<lparr> now = 0, polls = 1, sleeps = [], fetches = [], deletes = 0 \<rparr>)"
    by (subst await_complete_final [where s = "''Failed''" and job = "''750R0000000zlh9''"])
       (simp_all add: entered_def failed_job_def job_of_def world0_def incomplete_def)
  then show ?thesis
    by (simp add: aexit_def suppress_def verdict_def entered_def)
qed

text \<open>
  C1, amended: \<open>__aexit__\<close> waits for completion only if no results were begun. If
  it does not wait, or the wait returns normally or raises \<open>TimeoutError\<close>, it makes
  exactly one delete call and returns normally, whatever the delete request does. If the
  wait raises any other error, \<open>__aexit__\<close> raises that error and makes no delete
  call; if the wait never returns, neither does \<open>__aexit__\<close>.
\<close>

theorem aexit_best_effort:
  fixes env :: "('c, 'r) job_env" and q :: "'c SObjectQuery"
  assumes q: "query q = Some job"
  shows
    "(results q \<noteq> None \<longrightarrow>
        aexit env q w = Some (Inr (), w\<lparr>deletes := deletes w + 1\<rparr>))
     \<and> (results q = None \<and> await_complete env q w = Some (r, w1) \<and>
        (r = Inr () \<or> r = Inl TimeoutError) \<longrightarrow>
          aexit env q w = Some (Inr (), w1\<lparr>deletes := deletes w1 + 1\<rparr>) \<and>
          deletes w1 = deletes w)
     \<and> (results q = None \<and> await_complete env q w = Some (Inl e, w1) \<and>
        e \<noteq> TimeoutError \<longrightarrow>
          aexit env q w = Some (Inl e, w1) \<and> deletes w1 = deletes w)
     \<and> (results q = None \<and> await_complete env q w = None \<longrightarrow> aexit env q w = None)"
proof (intro conjI impI)
  assume "results q \<noteq> None"
  then show "aexit env q w = Some (Inr (), w\<lparr>deletes := deletes w + 1\<rparr>)"
    using q by (auto simp: aexit_def suppress_def delete_def split: option.splits)
next
  assume a: "results q = None \<and> await_complete env q w = Some (r, w1) \<and>
        (r = Inr () \<or> r = Inl TimeoutError)"
  then show "aexit env q w = Some (Inr (), w1\<lparr>deletes := deletes w1 + 1\<rparr>)"
    using q by (auto simp: aexit_def suppress_def delete_def split: option.splits)
  from a have "await_loop env q (now w) 1 w = Some (r, w1)"
    by (simp add: await_complete_def)
  from await_loop_trace [OF this] show "deletes w1 = deletes w" by simp
next
  assume a: "results q = None \<and> await_complete env q w = Some (Inl e, w1) \<and>
        e \<noteq> TimeoutError"
  then show "aexit env q w = Some (Inl e, w1)"
    by (simp add: aexit_def suppress_def)
  from a have "await_loop env q (now w) 1 w = Some (Inl e, w1)"
    by (simp add: await_complete_def)
  from await_loop_trace [OF this] show "deletes w1 = deletes w" by simp
next
  assume "results q = None \<and> await_complete env q w = None"
  then show "aexit env q w = None" by (simp add: aexit_def)
qed

text \<open>
  Witness for C1: with timeout 1 on a job that stays \<open>InProgress\<close> the wait raises
  \<open>TimeoutError\<close>, and the delete request fails with status 500: both fail, one
  delete call is made and \<open>__aexit__\<close> returns normally. With results begun there is
  no wait, and one delete call.
\<close>

theorem aexit_best_effort_witness:
  "query (entered (Some 1)) = Some ''750R0000000zlh9'' \<and>
   results (entered (Some 1)) = None \<and>
   delete_reply undeletable_job 0 = Some (StatusError 500 ''Server Error'') \<and>
   await_complete undeletable_job (entered (Some 1)) world0 =
     Some (Inl TimeoutError,
           \<lparr> now = 1, polls = 2, sleeps = [1], fetches = [], deletes = 0 \<rparr>) \<and>
   aexit undeletable_job (entered (Some 1)) world0 =
     Some (Inr (), \<lparr> now = 1, polls = 2, sleeps = [1], fetches = [], deletes = 1 \<rparr>) \<and>
   aexit undeletable_job ((entered (Some 1))\<lparr>results := Some []\<rparr>) world0 =
     Some (Inr (), \<lparr> now = 0, polls = 0, sleeps = [], fetches = [], deletes = 1 \<rparr>)"
proof -
  have q: "query (entered (Some 1)) = Some ''750R0000000zlh9''"
    "query ((entered (Some 1))\<lparr>results := Some []\<rparr>) = Some ''750R0000000zlh9''"
    and r: "results (entered (Some 1)) = None"
      "results ((entered (Some 1))\<lparr>results := Some []\<rparr>) \<noteq> None"
    by (simp_all add: entered_def)
  have d: "delete_reply undeletable_job 0 = Some (StatusError 500 ''Server Error'')"
    by (simp add: undeletable_job_def)
  have pt: "poll_time undeletable_job p 0 = 0" "poll_time undeletable_job p (Suc 0) = 1"
    for p by (simp_all add: poll_time_def undeletable_job_def job_of_def backoff_def)
  have "await_complete undeletable_job (entered (Some 1)) world0 =
      Some (Inl TimeoutError, polled undeletable_job world0 1)"
    by (rule await_complete_raises [OF q(1)])
       (simp_all add: undeletable_job_def job_of_def incomplete_def entered_def
          deadline_passed_def poll_time_def backoff_def)
  then have run: "await_complete undeletable_job (entered (Some 1)) world0 =
     Some (Inl TimeoutError,
           \<lparr> now = 1, polls = 2, sleeps = [1], fetches = [], deletes = 0 \<rparr>)"
    by (simp add: polled_def pt world0_def backoff_def)
  from aexit_best_effort [OF q(1), of undeletable_job world0 "Inl TimeoutError"
      "\<lparr> now = 1, polls = 2, sleeps = [1], fetches = [], deletes = 0 \<rparr>" TimeoutError]
    r(1) run
  have 1: "aexit undeletable_job (entered (Some 1)) world0 =
     Some (Inr (), \<lparr> now = 1, polls = 2, sleeps = [1], fetches = [], deletes = 1 \<rparr>)"
    by simp
  from aexit_best_effort [OF q(2), of undeletable_job world0 "Inl TimeoutError"
      world0 TimeoutError] r(2)
  have 2: "aexit undeletable_job ((entered (Some 1))\<lparr>results := Some []\<rparr>) world0 =
     Some (Inr (), \<lparr> now = 0, polls = 0, sleeps = [], fetches = [], deletes = 1 \<rparr>)"
    by (simp add: world0_def)
  from q(1) r(1) d run 1 2 show ?thesis by simp
qed

section \<open>The page iterator\<close>

text \<open>
  C10: when the fetch returns a page whose \<open>items\<close> are empty, \<open>_next_page\<close>
  raises \<open>IndexError\<close> (having stored the empty buffer and the page's cursor), and
  so does the \<open>__anext__\<close> that called it, on the first fetch as on a later one; it
  does not raise \<open>StopAsyncIteration\<close>.
\<close>

theorem next_page_empty_page:
  fixes env :: "('c, 'r) job_env" and q :: "'c SObjectQuery"
  defines "limit \<equiv> (case page_size q of None \<Rightarrow> 1000 | Some n \<Rightarrow> if n = 0 then 1000 else n)"
  assumes q: "query q = Some job"
    and page: "results_reply env (length (fetches w)) limit (cursor q) = Inr page"
    and empty: "items page = []"
  shows
    "next_page env q w =
       (Inl IndexError, q\<lparr>results := Some [], cursor := page_cursor page\<rparr>,
        w\<lparr>fetches := fetches w @ [(limit, cursor q)]\<rparr>)
     \<and> (results q = Some [] \<and> truthy (cursor q) \<longrightarrow>
          anext env q w =
            Some (Raise IndexError, q\<lparr>results := Some [], cursor := page_cursor page\<rparr>,
                  w\<lparr>fetches := fetches w @ [(limit, cursor q)]\<rparr>))
     \<and> (results q = None \<and> await_complete env q w' = Some (Inr (), w) \<longrightarrow>
          anext env q w' =
            Some (Raise IndexError, q\<lparr>results := Some [], cursor := page_cursor page\<rparr>,
                  w\<lparr>fetches := fetches w @ [(limit, cursor q)]\<rparr>))"
proof -
  have np: "next_page env q w =
       (Inl IndexError, q\<lparr>results := Some [], cursor := page_cursor page\<rparr>,
        w\<lparr>fetches := fetches w @ [(limit, cursor q)]\<rparr>)"
    using q page empty by (simp add: next_page_def Let_def limit_def)
  then show ?thesis
    by (auto simp: anext_def anext_fetch_def truthy_def)
qed

text \<open>
  Witness for C10: a completed job whose first page is empty; the first \<open>__anext__\<close>
  raises \<open>IndexError\<close>.
\<close>

theorem next_page_empty_page_witness:
  "query (entered None) = Some ''750R0000000zlh9'' \<and>
   results_reply empty_page_job 0 1000 None = Inr \<lparr> items = [], page_cursor = None \<rparr> \<and>
   anext empty_page_job (entered None) world0 =
     Some (Raise IndexError, (entered None)\<lparr>results := Some []\<rparr>,
           \<lparr> now = 0, polls = 1, sleeps = [], fetches = [(1000, None)], deletes = 0 \<rparr>)"
proof -
  let ?w = "\<lparr> now = 0, polls = 1, sleeps = [], fetches = [], deletes = 0 \<rparr>"
  have q: "query (entered None) = Some ''750R0000000zlh9''" by (simp add: entered_def)
  have page: "results_reply empty_page_job (length (fetches ?w))
      (case page_size (entered None) of None \<Rightarrow> 1000 | Some n \<Rightarrow> if n = 0 then 1000 else n)
      (cursor (entered None)) = Inr \<lparr> items = [], page_cursor = None \<rparr>"
    by (simp add: empty_page_job_def)
  have run: "await_complete empty_page_job (entered None) world0 = Some (Inr (), ?w)"
    by (subst await_complete_final [where s = "''JobComplete''" and job = "''750R0000000zlh9''"])
       (simp_all add: entered_def empty_page_job_def job_of_def world0_def incomplete_def
          verdict_def)
  from next_page_empty_page [OF q page, of world0] run
  have "anext empty_page_job (entered None) world0 =
     Some (Raise IndexError, (entered None)\<lparr>results := Some []\<rparr>,
           \<lparr> now = 0, polls = 1, sleeps = [], fetches = [(1000, None)], deletes = 0 \<rparr>)"
    by (simp add: entered_def)
  with q show ?thesis by (simp add: empty_page_job_def)
qed

lemma anext_buffered:
  assumes "results q = Some (row # rest)" "codec q = Some cd" "decode env cd row = Inr x"
  shows "anext env q w = Some (Yield x, q\<lparr>results := Some rest\<rparr>, w)"
  using assms by (simp add: anext_def anext_fetch_def anext_tail_def truthy_def)

lemma anext_end:
  assumes "results q = Some []" "\<not> truthy (cursor q)"
  shows "anext env q w = Some (StopAsyncIteration, q, w)"
  using assms by (simp add: anext_def anext_fetch_def anext_tail_def truthy_def)

lemma drain_buffer:
  assumes "results q = Some rs" "codec q = Some cd" "map (decode env cd) rs = map Inr rcs"
  shows "drain env q w acc = drain env (q\<lparr>results := Some []\<rparr>) w (acc @ rcs)"
  using assms
proof (induction rs arbitrary: q acc rcs)
  case Nil
  have same: "q\<lparr>results := Some []\<rparr> = q" using Nil.prems(1) by (cases q) simp
  from Nil.prems(3) have "rcs = []" by simp
  then show ?case unfolding same by (simp only: append_Nil2)
next
  case (Cons row rest)
  from Cons.prems(3) obtain x rcs' where x: "rcs = x # rcs'" "decode env cd row = Inr x"
    "map (decode env cd) rest = map Inr rcs'"
    by (cases rcs) auto
  have "drain env q w acc = drain env (q\<lparr>results := Some rest\<rparr>) w (acc @ [x])"
    by (subst drain.simps) (simp add: anext_buffered [OF Cons.prems(1,2) x(2)])
  also have "\<dots> = drain env (q\<lparr>results := Some rest, results := Some []\<rparr>) w
      ((acc @ [x]) @ rcs')"
    using Cons.prems(2) x(3) by (intro Cons.IH) simp_all
  finally show ?case using x(1) by simp
qed

lemma drain_end:
  assumes "results q = Some []" "\<not> truthy (cursor q)"
  shows "drain env q w acc = Some (acc, Inr (), q, w)"
  by (subst drain.simps) (simp add: anext_end [OF assms])

lemma next_page_ok:
  assumes "query q = Some job"
    and "results_reply env (length (fetches w)) (page_limit q) (cursor q)
          = Inr \<lparr> items = h # rs, page_cursor = pc \<rparr>"
    and "typeddict_codec env (td q) h = Inr cd"
  shows "next_page env q w =
    (Inr (), q\<lparr>results := Some rs, cursor := pc, codec := Some cd\<rparr>,
     w\<lparr>fetches := fetches w @ [(page_limit q, cursor q)]\<rparr>)"
  using assms by (simp add: next_page_def Let_def page_limit_def)

lemma anext_fetch_full:
  assumes "results q = Some rs" "rs \<noteq> [] \<or> \<not> truthy (cursor q)"
  shows "anext_fetch env q w = anext_tail env q w"
  using assms by (auto simp: anext_fetch_def truthy_def)

lemma drain_fetch:
  assumes q: "query q = Some job" and due: "results q = Some []" "truthy (cursor q)"
    and page: "results_reply env (length (fetches w)) (page_limit q) (cursor q)
          = Inr \<lparr> items = h # rs, page_cursor = pc \<rparr>"
    and cd: "typeddict_codec env (td q) h = Inr cd"
    and ok: "rs \<noteq> [] \<or> \<not> truthy pc"
  shows "drain env q w acc =
    drain env (q\<lparr>results := Some rs, cursor := pc, codec := Some cd\<rparr>)
      (w\<lparr>fetches := fetches w @ [(page_limit q, cursor q)]\<rparr>) acc"
proof -
  let ?q1 = "q\<lparr>results := Some rs, cursor := pc, codec := Some cd\<rparr>"
  let ?w1 = "w\<lparr>fetches := fetches w @ [(page_limit q, cursor q)]\<rparr>"
  have "anext env q w = Some (anext_tail env ?q1 ?w1)"
    using due by (simp add: anext_def anext_fetch_def next_page_ok [OF q page cd] truthy_def)
  moreover have "anext env ?q1 ?w1 = Some (anext_tail env ?q1 ?w1)"
    using ok by (simp add: anext_def anext_fetch_full [where rs = rs])
  ultimately have "anext env q w = anext env ?q1 ?w1" by simp
  then show ?thesis by (subst (1 2) drain.simps) simp
qed

lemma drain_first_fetch:
  assumes q: "query q = Some job" and due: "results q = None"
    and ready: "await_complete env q w = Some (Inr (), w1)"
    and page: "results_reply env (length (fetches w1)) (page_limit q) (cursor q)
          = Inr \<lparr> items = h # rs, page_cursor = pc \<rparr>"
    and cd: "typeddict_codec env (td q) h = Inr cd"
    and ok: "rs \<noteq> [] \<or> \<not> truthy pc"
  shows "drain env q w acc =
    drain env (q\<lparr>results := Some rs, cursor := pc, codec := Some cd\<rparr>)
      (w1\<lparr>fetches := fetches w1 @ [(page_limit q, cursor q)]\<rparr>) acc"
proof -
  let ?q1 = "q\<lparr>results := Some rs, cursor := pc, codec := Some cd\<rparr>"
  let ?w1 = "w1\<lparr>fetches := fetches w1 @ [(page_limit q, cursor q)]\<rparr>"
  have "anext env q w = Some (anext_tail env ?q1 ?w1)"
    using due ready by (simp add: anext_def anext_fetch_def next_page_ok [OF q page cd])
  moreover have "anext env ?q1 ?w1 = Some (anext_tail env ?q1 ?w1)"
    using ok by (simp add: anext_def anext_fetch_full [where rs = rs])
  ultimately have "anext env q w = anext env ?q1 ?w1" by simp
  then show ?thesis by (subst (1 2) drain.simps) simp
qed

lemma drain_pages:
  fixes env :: "('c, 'r) job_env" and q :: "'c SObjectQuery"
  assumes "query q = Some job" "results q = Some rs" "codec q = Some cd"
    and "map (decode env cd) rs = map Inr rcs"
    and "if ps = [] then \<not> truthy (cursor q) else truthy (cursor q)"
    and "chain env (td q) (page_limit q) (length (fetches w)) (cursor q) ps"
  shows "\<exists>q' w'. drain env q w acc = Some (acc @ rcs @ concat (map recs ps), Inr (), q', w')
    \<and> fetches w' = fetches w @
        map (\<lambda>c. (page_limit q, c)) (if ps = [] then [] else cursor q # map nxt (butlast ps))"
  using assms
proof (induction ps arbitrary: q w acc rs cd rcs)
  case Nil
  let ?q = "q\<lparr>results := Some []\<rparr>"
  have "drain env q w acc = drain env ?q w (acc @ rcs)"
    using Nil.prems(2,3,4) by (rule drain_buffer)
  also have "\<dots> = Some (acc @ rcs, Inr (), ?q, w)"
    using Nil.prems(5) by (intro drain_end) simp_all
  finally show ?case by simp
next
  case (Cons p ps)
  let ?q = "q\<lparr>results := Some []\<rparr>"
  let ?q1 = "?q\<lparr>results := Some (rows p), cursor := nxt p, codec := Some (row_codec p)\<rparr>"
  let ?w1 = "w\<lparr>fetches := fetches w @ [(page_limit q, cursor q)]\<rparr>"
  from Cons.prems(6) have
    page: "results_reply env (length (fetches w)) (page_limit ?q) (cursor ?q)
      = Inr \<lparr> items = hdr p # rows p, page_cursor = nxt p \<rparr>"
    and cd: "typeddict_codec env (td ?q) (hdr p) = Inr (row_codec p)"
    and dec: "map (decode env (row_codec p)) (rows p) = map Inr (recs p)"
    and last: "if ps = [] then \<not> truthy (nxt p) else truthy (nxt p) \<and> rows p \<noteq> []"
    and rest: "chain env (td q) (page_limit q) (Suc (length (fetches w))) (nxt p) ps"
    by (simp_all add: page_limit_def)
  have "drain env q w acc = drain env ?q w (acc @ rcs)"
    using Cons.prems(2,3,4) by (rule drain_buffer)
  also have "\<dots> = drain env ?q1 ?w1 (acc @ rcs)"
  proof -
    have "drain env ?q w (acc @ rcs) =
      drain env (?q\<lparr>results := Some (rows p), cursor := nxt p, codec := Some (row_codec p)\<rparr>)
        (w\<lparr>fetches := fetches w @ [(page_limit ?q, cursor ?q)]\<rparr>) (acc @ rcs)"
      using Cons.prems(1,5) last
      by (intro drain_fetch [OF _ _ _ page cd]) (auto split: if_splits)
    then show ?thesis by (simp add: page_limit_def)
  qed
  finally have step: "drain env q w acc = drain env ?q1 ?w1 (acc @ rcs)" .
  have "\<exists>q' w'. drain env ?q1 ?w1 (acc @ rcs)
      = Some ((acc @ rcs) @ recs p @ concat (map recs ps), Inr (), q', w')
    \<and> fetches w' = fetches ?w1 @
        map (\<lambda>c. (page_limit ?q1, c)) (if ps = [] then [] else cursor ?q1 # map nxt (butlast ps))"
    using Cons.prems(1) dec last rest
    by (intro Cons.IH [where rs = "rows p" and cd = "row_codec p"])
       (simp_all add: page_limit_def split: if_splits)
  with step show ?case by (auto simp: page_limit_def)
qed

lemma iterate_pages:
  fixes env :: "('c, 'r) job_env" and q :: "'c SObjectQuery"
  assumes q: "query q = Some job" "results q = None"
    and ready: "await_complete env q w = Some (Inr (), w1)"
    and pages: "pages \<noteq> []"
      "chain env (td q) (page_limit q) (length (fetches w1)) (cursor q) pages"
  shows "\<exists>q' w'. iterate env q w = Some (concat (map recs pages), Inr (), q', w')
    \<and> fetches w' = fetches w1 @ map (\<lambda>c. (page_limit q, c)) (cursor q # map nxt (butlast pages))"
proof -
  from pages(1) obtain p ps where pp: "pages = p # ps" by (cases pages) auto
  let ?q1 = "q\<lparr>results := Some (rows p), cursor := nxt p, codec := Some (row_codec p)\<rparr>"
  let ?w1 = "w1\<lparr>fetches := fetches w1 @ [(page_limit q, cursor q)]\<rparr>"
  from pages(2) pp have
    page: "results_reply env (length (fetches w1)) (page_limit q) (cursor q)
      = Inr \<lparr> items = hdr p # rows p, page_cursor = nxt p \<rparr>"
    and cd: "typeddict_codec env (td q) (hdr p) = Inr (row_codec p)"
    and dec: "map (decode env (row_codec p)) (rows p) = map Inr (recs p)"
    and last: "if ps = [] then \<not> truthy (nxt p) else truthy (nxt p) \<and> rows p \<noteq> []"
    and rest: "chain env (td q) (page_limit q) (Suc (length (fetches w1))) (nxt p) ps"
    by simp_all
  have "iterate env q w = drain env q w []" using q by (simp add: iterate_def)
  also have "\<dots> = drain env ?q1 ?w1 []"
    using last by (intro drain_first_fetch [OF q ready page cd]) (auto split: if_splits)
  finally have step: "iterate env q w = drain env ?q1 ?w1 []" .
  have "\<exists>q' w'. drain env ?q1 ?w1 []
      = Some ([] @ recs p @ concat (map recs ps), Inr (), q', w')
    \<and> fetches w' = fetches ?w1 @
        map (\<lambda>c. (page_limit ?q1, c)) (if ps = [] then [] else cursor ?q1 # map nxt (butlast ps))"
    using q(1) dec last rest
    by (intro drain_pages [where rs = "rows p" and cd = "row_codec p"])
       (simp_all add: page_limit_def split: if_splits)
  with step pp show ?thesis by (auto simp: page_limit_def)
qed

lemma paged_job_ready:
  "await_complete (paged_job a b) (entered None) world0 =
     Some (Inr (), \<lparr> now = 0, polls = 1, sleeps = [], fetches = [], deletes = 0 \<rparr>)"
  by (subst await_complete_final [where s = "''JobComplete''" and job = "''750R0000000zlh9''"])
     (simp_all add: entered_def paged_job_def job_of_def world0_def incomplete_def verdict_def)

lemma entered_facts:
  "query (entered t) = Some ''750R0000000zlh9''" "results (entered t) = None"
  "cursor (entered t) = None" "page_limit (entered t) = 1000"
  by (simp_all add: entered_def page_limit_def)

text \<open>
  C3, as stated, fails: \<open>_next_page\<close> takes the first row off every page it fetches.
  When page 1 is a header and two rows with cursor \<open>A\<close>, and page 2 is the one row
  \<open>003, Cog\<close> with no cursor, the iteration yields two records and ends: the row of
  page 2 is taken off the buffer before the codec is built from it, so it is never
  decoded, whatever the CSV library makes of it as a header.
\<close>

theorem iterate_second_page_row_lost:
  "results_reply unheaded_pages 0 1000 None =
     Inr \<lparr> items = [[''Id'', ''Name''], [''001'', ''Acme''], [''002'', ''Bolt'']],
           page_cursor = Some ''A'' \<rparr> \<and>
   results_reply unheaded_pages 1 1000 (Some ''A'') =
     Inr \<lparr> items = [[''003'', ''Cog'']], page_cursor = None \<rparr> \<and>
   map_option fst (iterate unheaded_pages (entered None) world0) =
     Some [[(''Id'', ''001''), (''Name'', ''Acme'')], [(''Id'', ''002''), (''Name'', ''Bolt'')]] \<and>
   map_option (fst \<circ> snd) (iterate unheaded_pages (entered None) world0) = Some (Inr ())"
proof -
  have "chain unheaded_pages (td (entered None)) (page_limit (entered None))
      (length (fetches \<lparr> now = 0, polls = 1, sleeps = [], fetches = [], deletes = 0 \<rparr>))
      (cursor (entered None)) [page_one, page_two_unheaded]"
    by (simp add: entered_facts unheaded_pages_def paged_job_def job_of_def page_one_def
        page_two_unheaded_def truthy_def)
  moreover have "await_complete unheaded_pages (entered None) world0 =
     Some (Inr (), \<lparr> now = 0, polls = 1, sleeps = [], fetches = [], deletes = 0 \<rparr>)"
    unfolding unheaded_pages_def by (rule paged_job_ready)
  ultimately have "\<exists>q' w'. iterate unheaded_pages (entered None) world0 =
      Some (concat (map recs [page_one, page_two_unheaded]), Inr (), q', w')
      \<and> fetches w' = fetches \<lparr> now = 0, polls = 1, sleeps = [], fetches = [], deletes = 0 \<rparr>
          @ map (\<lambda>c. (page_limit (entered None), c))
              (cursor (entered None) # map nxt (butlast [page_one, page_two_unheaded]))"
    by (intro iterate_pages [OF entered_facts(1,2)]) simp_all
  then obtain q' w' where "iterate unheaded_pages (entered None) world0 =
      Some (concat (map recs [page_one, page_two_unheaded]), Inr (), q', w')"
    by auto
  then show ?thesis
    by (simp add: page_one_def page_two_unheaded_def unheaded_pages_def paged_job_def)
qed

text \<open>
  C3, amended: the first row of every page fetched is consumed as the header and not
  yielded. When the job is complete, every page but the last carries a cursor and at
  least one row after its header, the last page carries no cursor, and the CSV library
  builds a codec from every header and decodes every row, then the iteration fetches
  the pages one after the other, each with the cursor of the page before, yields every
  row after the header of every page, decoded, in order, and ends after the last page.
  (A page that carries a cursor and nothing but its header is left out of the
  statement.)
\<close>

theorem iterate_every_page_header:
  fixes env :: "('c, 'r) job_env" and q :: "'c SObjectQuery"
  assumes "query q = Some job" "results q = None"
    and "await_complete env q w = Some (Inr (), w1)"
    and "pages \<noteq> []"
    and "chain env (td q) (page_limit q) (length (fetches w1)) (cursor q) pages"
  shows "\<exists>q' w'. iterate env q w = Some (concat (map recs pages), Inr (), q', w')
    \<and> fetches w' = fetches w1 @ map (\<lambda>c. (page_limit q, c)) (cursor q # map nxt (butlast pages))"
  using assms by (rule iterate_pages)

text \<open>
  Witness for C3: page 1 with cursor \<open>A\<close>, a header and 2 rows, page 2 with no cursor,
  a header and 1 row: exactly 3 records, in order, then the end.
\<close>

theorem iterate_every_page_header_witness:
  "query (entered None) = Some ''750R0000000zlh9'' \<and> results (entered None) = None \<and>
   results_reply headed_pages 0 1000 None =
     Inr \<lparr> items = [[''Id'', ''Name''], [''001'', ''Acme''], [''002'', ''Bolt'']],
           page_cursor = Some ''A'' \<rparr> \<and>
   results_reply headed_pages 1 1000 (Some ''A'') =
     Inr \<lparr> items = [[''Id'', ''Name''], [''003'', ''Cog'']], page_cursor = None \<rparr> \<and>
   (\<exists>q' w'. iterate headed_pages (entered None) world0 =
      Some ([[(''Id'', ''001''), (''Name'', ''Acme'')],
             [(''Id'', ''002''), (''Name'', ''Bolt'')],
             [(''Id'', ''003''), (''Name'', ''Cog'')]], Inr (), q', w')
      \<and> fetches w' = [(1000, None), (1000, Some ''A'')])"
proof -
  have c: "chain headed_pages (td (entered None)) (page_limit (entered None))
      (length (fetches \<lparr> now = 0, polls = 1, sleeps = [], fetches = [], deletes = 0 \<rparr>))
      (cursor (entered None)) [page_one, page_two_headed]"
    by (simp add: entered_facts headed_pages_def paged_job_def job_of_def page_one_def
        page_two_headed_def truthy_def)
  have r: "await_complete headed_pages (entered None) world0 =
     Some (Inr (), \<lparr> now = 0, polls = 1, sleeps = [], fetches = [], deletes = 0 \<rparr>)"
    unfolding headed_pages_def by (rule paged_job_ready)
  from iterate_every_page_header [OF entered_facts(1,2) r _ c]
  obtain q' w' where "iterate headed_pages (entered None) world0 =
      Some (concat (map recs [page_one, page_two_headed]), Inr (), q', w')"
    "fetches w' = [] @ map (\<lambda>c. (page_limit (entered None), c))
        (cursor (entered None) # map nxt (butlast [page_one, page_two_headed]))"
    by auto
  then have "\<exists>q' w'. iterate headed_pages (entered None) world0 =
      Some ([[(''Id'', ''001''), (''Name'', ''Acme'')],
             [(''Id'', ''002''), (''Name'', ''Bolt'')],
             [(''Id'', ''003''), (''Name'', ''Cog'')]], Inr (), q', w')
      \<and> fetches w' = [(1000, None), (1000, Some ''A'')]"
    by (simp add: page_one_def page_two_headed_def entered_facts)
  then show ?thesis
    by (simp add: entered_facts headed_pages_def paged_job_def)
qed

end
